theory Spec2Isabelle
  imports Complex_Main "HOL-Library.Product_Lexorder" "HOL-Library.Option_ord"
    "HOL-Library.Signed_Division" "HOL-Library.Multiset"
begin

section \<open>Data model of the catalog store\<close>

text \<open>
  The catalog is the SQLite database of \<^verbatim>\<open>sqlite_db.py\<close>. A table is the list of its rows in
  rowid order, which is the order a \<^verbatim>\<open>SELECT\<close> without \<^verbatim>\<open>ORDER BY\<close> scans them in. The table
  \<^verbatim>\<open>directory\<close> holds one row per indexed file; its column \<^verbatim>\<open>dir_b\<close> is constrained to
  0 or 1 and is a boolean here; \<^verbatim>\<open>success\<close> is -1 (unprocessed), -2 (processing), 0 (error)
  or 1 (ok). Python integers and SQLite integers are \<^typ>\<open>int\<close>; a nullable column is an
  \<^typ>\<open>'a option\<close> with \<^const>\<open>None\<close> for \<^verbatim>\<open>NULL\<close>.
\<close>

record file_entry =
  key :: int
  path :: string
  filename :: string
  error :: "string option"
  success :: int
  px :: int
  py :: int
  dir_b :: bool
  hash_0 :: "int option"
  hash_90 :: "int option"
  hash_180 :: "int option"
  hash_270 :: "int option"

type_synonym directory = "file_entry list"

text \<open>
  Table \<^verbatim>\<open>hash_table\<close> with columns \<^verbatim>\<open>key\<close>, \<^verbatim>\<open>hash\<close> (unique, nullable text) and \<^verbatim>\<open>count\<close>.
\<close>

record hash_entry =
  hash_key :: int
  hash_text :: "string option"
  hash_count :: int

text \<open>
  Table \<^verbatim>\<open>dif_table\<close> with columns \<^verbatim>\<open>key\<close>, \<^verbatim>\<open>key_a\<close>, \<^verbatim>\<open>key_b\<close>, \<^verbatim>\<open>dif\<close>, \<^verbatim>\<open>success\<close>,
  \<^verbatim>\<open>block_a\<close>, \<^verbatim>\<open>block_b\<close> and \<^verbatim>\<open>block_key\<close>. The columns \<^verbatim>\<open>key\<close> and \<^verbatim>\<open>success\<close> are
  \<open>dif_key\<close> and \<open>dif_success\<close> here. Table \<^verbatim>\<open>dif_error_table\<close> is a list of pairs
  of \<^verbatim>\<open>key\<close> (its primary key) and \<^verbatim>\<open>error\<close>.
\<close>

record dif_entry =
  dif_key :: int
  key_a :: int
  key_b :: int
  dif :: real
  dif_success :: int
  block_a :: "int option"
  block_b :: "int option"
  block_key :: "int option"

type_synonym dif_table = "dif_entry list"
type_synonym dif_error_table = "(int \<times> string) list"

text \<open>Errors the modelled code can raise.\<close>

datatype error = IntegrityError | AssertionError | ValueError | IndexError

subsection \<open>SQL building blocks\<close>

text \<open>\<^verbatim>\<open>LIMIT ?\<close>: a negative bound means no bound in SQLite.\<close>

definition sql_limit :: "int \<Rightarrow> 'a list \<Rightarrow> 'a list" where
  "sql_limit n xs = (if n < 0 then xs else take (nat n) xs)"

text \<open>
  Integer arithmetic of SQLite: an operand \<^verbatim>\<open>NULL\<close> gives \<^verbatim>\<open>NULL\<close>, \<^verbatim>\<open>/\<close> truncates towards
  zero and gives \<^verbatim>\<open>NULL\<close> for a zero divisor.
\<close>

definition sql_sub :: "int option \<Rightarrow> int option \<Rightarrow> int option" where
  "sql_sub x y = (case (x, y) of (Some a, Some b) \<Rightarrow> Some (a - b) | _ \<Rightarrow> None)"

definition sql_add :: "int option \<Rightarrow> int option \<Rightarrow> int option" where
  "sql_add x y = (case (x, y) of (Some a, Some b) \<Rightarrow> Some (a + b) | _ \<Rightarrow> None)"

definition sql_div :: "int option \<Rightarrow> int option \<Rightarrow> int option" where
  "sql_div x y = (case (x, y) of
       (Some a, Some b) \<Rightarrow> (if b = 0 then None else Some (a sdiv b))
     | _ \<Rightarrow> None)"

text \<open>\<^verbatim>\<open>MIN(..)\<close> over the selected values: \<^verbatim>\<open>NULL\<close> when there is none.\<close>

definition sql_min :: "int list \<Rightarrow> int option" where
  "sql_min xs = (case xs of [] \<Rightarrow> None | x # ys \<Rightarrow> Some (fold min ys x))"

text \<open>
  Rows inserted into a fresh table with an \<^verbatim>\<open>AUTOINCREMENT\<close> key get the keys 1, 2, ...
  in insertion order.
\<close>

definition autoincrement :: "'a list \<Rightarrow> (int \<times> 'a) list" where
  "autoincrement xs = map (\<lambda>(i, x). (int i, x)) (enumerate 1 xs)"

section \<open>Configuration of the driver\<close>

text \<open>
  The fields of \<^verbatim>\<open>self.config\<close> that the modelled functions read or write; the fields of
  \<^verbatim>\<open>config.first_loop\<close> and \<^verbatim>\<open>config.second_loop\<close> carry the prefix of their sub-record.
\<close>

record config =
  root_dir_a :: string
  root_dir_b :: "string option"
  first_loop_compress :: bool
  first_loop_compute_hash :: bool
  second_loop_batch_size :: int
  second_loop_batch_args :: bool
  second_loop_use_ram_cache :: bool
  second_loop_skip_matching_hash :: bool
  second_loop_cache_index :: int

section \<open>Directory table\<close>

text \<open>
  \<^verbatim>\<open>os.path.join(path, f)\<close> for POSIX paths and two arguments.
\<close>

definition os_path_join :: "string \<Rightarrow> string \<Rightarrow> string" where
  "os_path_join a b =
     (if take 1 b = ''/'' then b
      else if a = [] \<or> last a = CHR ''/'' then a @ b
      else a @ ''/'' @ b)"

text \<open>
  One execution of \<^verbatim>\<open>INSERT INTO directory (path, filename, dir_b) VALUES (?, ?, ?)\<close>. The
  table has \<^verbatim>\<open>UNIQUE (path, dir_b)\<close>, and the statement names no conflict clause, so a second
  row with the same path and partition is a constraint violation, raised by sqlite3 as
  \<^verbatim>\<open>IntegrityError\<close>. The key is \<^verbatim>\<open>AUTOINCREMENT\<close>: one more than the largest key the table
  ever held, which the second component of the state records. All other columns take
  their defaults.
\<close>

definition insert_directory_row ::
  "string \<times> string \<times> bool \<Rightarrow> directory \<times> int \<Rightarrow> error + directory \<times> int" where
  "insert_directory_row t st =
     (case (t, st) of ((p, f, b), (d, seq)) \<Rightarrow>
        if \<exists>r \<in> set d. path r = p \<and> dir_b r = b then Inl IntegrityError
        else (let k = max seq (fold max (map key d) 0) + 1
              in Inr (d @ [\<lparr>key = k, path = p, filename = f, error = None, success = -1,
                           px = -1, py = -1, dir_b = b, hash_0 = None, hash_90 = None,
                           hash_180 = None, hash_270 = None\<rparr>], k)))"

text \<open>
  Modelled from the spec: \<^verbatim>\<open>debug_execute_many\<close> belongs to the base class \<^verbatim>\<open>BaseSQliteDB\<close> of
  \<^verbatim>\<open>sqlite_wrapper\<close>, which is not among the sources. It is taken as \<^verbatim>\<open>executemany\<close> of
  sqlite3: the statement runs once per tuple, in order, and the first constraint violation
  raises; the specification counts a constraint violation among the fatal errors of the
  catalog. Likewise \<^verbatim>\<open>debug_execute\<close> is taken as \<^verbatim>\<open>execute\<close>.
\<close>

fun insert_directory_rows ::
  "(string \<times> string \<times> bool) list \<Rightarrow> directory \<times> int \<Rightarrow> error + directory \<times> int" where
  "insert_directory_rows [] st = Inr st"
| "insert_directory_rows (t # ts) st =
     (case insert_directory_row t st of
        Inl e \<Rightarrow> Inl e
      | Inr st' \<Rightarrow> insert_directory_rows ts st')"

text \<open>\<^verbatim>\<open>SQLiteDB.bulk_insert_file\<close>.\<close>

definition bulk_insert_file ::
  "string \<Rightarrow> string list \<Rightarrow> bool \<Rightarrow> directory \<times> int \<Rightarrow> error + directory \<times> int" where
  "bulk_insert_file p filenames b st =
     insert_directory_rows (map (\<lambda>f. (os_path_join p f, f, b)) filenames) st"

datatype PreprocessArg = PreprocessArg (file_path: string) (arg_key: int)

text \<open>
  \<^verbatim>\<open>SQLiteDB.batch_of_preprocessing_args\<close>: select up to \<^verbatim>\<open>batch_size\<close> unprocessed rows, then
  mark as processing every row whose key is among the keys of the same selection.
  Returns the arguments and the updated table.
\<close>

definition batch_of_preprocessing_args :: "int \<Rightarrow> directory \<Rightarrow> PreprocessArg list \<times> directory" where
  "batch_of_preprocessing_args batch_size d =
     (let results = map (\<lambda>row. PreprocessArg (path row) (key row))
                      (sql_limit batch_size (filter (\<lambda>r. success r = -1) d));
          keys = map key (sql_limit batch_size (filter (\<lambda>r. success r = -1) d))
      in (results, map (\<lambda>r. if key r \<in> set keys then r\<lparr>success := -2\<rparr> else r) d))"

text \<open>\<^verbatim>\<open>SQLiteDB.get_dir_entry_count\<close> and \<^verbatim>\<open>SQLiteDB.get_b_offset\<close>.\<close>

definition get_dir_entry_count :: "bool \<Rightarrow> directory \<Rightarrow> int" where
  "get_dir_entry_count b d = int (length (filter (\<lambda>r. dir_b r = b) d))"

definition get_b_offset :: "directory \<Rightarrow> int option" where
  "get_b_offset d = sql_min (map key (filter dir_b d))"

text \<open>
  \<^verbatim>\<open>SQLiteDB.swap_dir_b\<close>: a fresh table receives the rows of partition B relabelled A, then
  the rows of partition A relabelled B, every column but the key copied; the keys are
  assigned anew. The old table is dropped and the new one takes its name. The new table
  carries the same uniqueness constraint on path and partition, which the relabelled rows
  meet whenever the old table did.
\<close>

definition swap_dir_b :: "directory \<Rightarrow> directory" where
  "swap_dir_b d =
     map (\<lambda>(k, r). r\<lparr>key := k\<rparr>)
       (autoincrement (map (\<lambda>r. r\<lparr>dir_b := False\<rparr>) (filter dir_b d) @
                       map (\<lambda>r. r\<lparr>dir_b := True\<rparr>) (filter (\<lambda>r. \<not> dir_b r) d)))"

text \<open>\<^verbatim>\<open>FastDifPy.cond_switch_a_b\<close> on the configuration and the directory table.\<close>

definition cond_switch_a_b :: "config \<times> directory \<Rightarrow> config \<times> directory" where
  "cond_switch_a_b st =
     (case st of (cfg, d) \<Rightarrow>
        (case root_dir_b cfg of
           None \<Rightarrow> (cfg, d)
         | Some b \<Rightarrow>
             if get_dir_entry_count False d \<le> get_dir_entry_count True d then (cfg, d)
             else (cfg\<lparr>root_dir_a := b, root_dir_b := Some (root_dir_a cfg)\<rparr>, swap_dir_b d)))"

section \<open>Hash table and the results of the first loop\<close>

text \<open>
  \<^verbatim>\<open>PreprocessResult\<close> of \<^verbatim>\<open>datatransfer_new\<close>, as the driver and the store read it: the key,
  the original size, the four hashes and the error. The worker sends the hashes as text;
  the driver replaces them by keys of the hash table, hence the type parameter. A field
  that is not set is \<^verbatim>\<open>None\<close>.
\<close>

record 'h PreprocessResult =
  res_key :: int
  org_x :: int
  org_y :: int
  res_hash_0 :: "'h option"
  res_hash_90 :: "'h option"
  res_hash_180 :: "'h option"
  res_hash_270 :: "'h option"
  res_error :: "string option"

text \<open>
  One execution of the upsert of \<^verbatim>\<open>SQLiteDB.bulk_insert_hashes\<close>, on the rows of the hash
  table and the largest key it ever handed out. \<^verbatim>\<open>NULL\<close> never conflicts with a unique
  column, so a hash that is \<^verbatim>\<open>None\<close> always adds a row. The key is \<^verbatim>\<open>AUTOINCREMENT\<close>: every
  execution takes the next key, also the one that meets a conflict and only updates the
  count of the row it conflicts with.
\<close>

definition upsert_hash :: "string option \<Rightarrow> hash_entry list \<times> int \<Rightarrow> hash_entry list \<times> int" where
  "upsert_hash h st =
     (case st of (t, seq) \<Rightarrow>
        (let k = max seq (fold max (map hash_key t) 0) + 1
         in if h \<noteq> None \<and> (\<exists>e \<in> set t. hash_text e = h)
            then (map (\<lambda>e. if hash_text e = h then e\<lparr>hash_count := hash_count e + 1\<rparr> else e) t, k)
            else (t @ [\<lparr>hash_key = k, hash_text = h, hash_count = 1\<rparr>], k)))"

definition bulk_insert_hashes ::
  "string option list \<Rightarrow> hash_entry list \<times> int \<Rightarrow> hash_entry list \<times> int" where
  "bulk_insert_hashes hashes st = fold upsert_hash hashes st"

text \<open>
  \<^verbatim>\<open>SQLiteDB.get_bulk_hash_lookup\<close>: one \<^verbatim>\<open>SELECT key FROM hash_table WHERE hash = ?\<close> per
  element of the set; \<^verbatim>\<open>hash = NULL\<close> selects nothing, and a lookup without a row fails the
  assertion. The dictionary is an association list.
\<close>

fun get_bulk_hash_lookup ::
  "string option list \<Rightarrow> hash_entry list \<Rightarrow> error + (string option \<times> int) list" where
  "get_bulk_hash_lookup [] t = Inr []"
| "get_bulk_hash_lookup (h # hs) t =
     (case (if h = None then None else find (\<lambda>e. hash_text e = h) t) of
        None \<Rightarrow> Inl AssertionError
      | Some e \<Rightarrow>
          (case get_bulk_hash_lookup hs t of
             Inl err \<Rightarrow> Inl err
           | Inr l \<Rightarrow> Inr ((h, hash_key e) # l)))"

text \<open>
  \<^verbatim>\<open>SQLiteDB.batch_of_first_loop_results\<close>. The results are split into errors and successes;
  the rows of the failed keys get the wrapped error and \<^verbatim>\<open>success = 0\<close>, then the rows of
  the successful keys get the size, the hashes when \<^verbatim>\<open>has_hash\<close>, and \<^verbatim>\<open>success = 1\<close>.
  \<^verbatim>\<open>to_b64\<close> of \<^verbatim>\<open>utils\<close> is a parameter.
\<close>

definition update_err :: "(string \<Rightarrow> string) \<Rightarrow> int PreprocessResult \<Rightarrow> directory \<Rightarrow> directory" where
  "update_err to_b64 res d =
     map (\<lambda>r. if key r = res_key res
               then r\<lparr>error := map_option to_b64 (res_error res), success := 0\<rparr> else r) d"

definition update_success :: "bool \<Rightarrow> int PreprocessResult \<Rightarrow> directory \<Rightarrow> directory" where
  "update_success has_hash res d =
     map (\<lambda>r. if key r = res_key res
               then (if has_hash
                     then r\<lparr>px := org_x res, py := org_y res, hash_0 := res_hash_0 res,
                            hash_90 := res_hash_90 res, hash_180 := res_hash_180 res,
                            hash_270 := res_hash_270 res, success := 1\<rparr>
                     else r\<lparr>px := org_x res, py := org_y res, success := 1\<rparr>)
               else r) d"

definition batch_of_first_loop_results ::
  "(string \<Rightarrow> string) \<Rightarrow> int PreprocessResult list \<Rightarrow> bool \<Rightarrow> directory \<Rightarrow> directory" where
  "batch_of_first_loop_results to_b64 results has_hash d =
     (let err = filter (\<lambda>res. res_error res \<noteq> None) results;
          success = filter (\<lambda>res. res_error res = None) results
      in fold (update_success has_hash) success (fold (update_err to_b64) err d))"

text \<open>
  \<^verbatim>\<open>FastDifPy.store_batch_first_loop\<close> on the hash table (its rows and its largest key so
  far) and the directory table. With hashing, the four hash fields of every result go
  into the hash table, the lookup is built over the set of these hashes, and every
  result's hashes are replaced by the keys found (\<^verbatim>\<open>lookup[res.hash_0]\<close>, which cannot miss a
  key of the dictionary).
\<close>

definition lookup_hash :: "(string option \<times> int) list \<Rightarrow> string option \<Rightarrow> int option" where
  "lookup_hash lookup h = map_of lookup h"

definition store_batch_first_loop ::
  "(string \<Rightarrow> string) \<Rightarrow> bool \<Rightarrow> string PreprocessResult list
     \<Rightarrow> (hash_entry list \<times> int) \<times> directory
     \<Rightarrow> error + (hash_entry list \<times> int) \<times> directory" where
  "store_batch_first_loop to_b64 compute_hash results st =
     (case st of (ht, d) \<Rightarrow>
        if compute_hash then
          (let hashes = concat (map (\<lambda>res. [res_hash_0 res, res_hash_90 res,
                                             res_hash_180 res, res_hash_270 res]) results);
               ht' = bulk_insert_hashes hashes ht
           in case get_bulk_hash_lookup (remdups hashes) (fst ht') of
                Inl e \<Rightarrow> Inl e
              | Inr lookup \<Rightarrow>
                  Inr (ht', batch_of_first_loop_results to_b64
                        (map (\<lambda>res. \<lparr>res_key = res_key res, org_x = org_x res, org_y = org_y res,
                                      res_hash_0 = lookup_hash lookup (res_hash_0 res),
                                      res_hash_90 = lookup_hash lookup (res_hash_90 res),
                                      res_hash_180 = lookup_hash lookup (res_hash_180 res),
                                      res_hash_270 = lookup_hash lookup (res_hash_270 res),
                                      res_error = res_error res\<rparr>) results) True d))
        else
          Inr (ht, batch_of_first_loop_results to_b64
                (map (\<lambda>res. \<lparr>res_key = res_key res, org_x = org_x res, org_y = org_y res,
                              res_hash_0 = None, res_hash_90 = None, res_hash_180 = None,
                              res_hash_270 = None, res_error = res_error res\<rparr>) results) False d))"

section \<open>Dif table\<close>

text \<open>
  \<^verbatim>\<open>SQLiteDB.prepopulate_diff_table\<close>, from the directory table to the dif table it fills
  (the dif table is empty before). First the pairs of keys, ordered by both keys: of a
  file of partition A and one of partition B when \<^verbatim>\<open>has_dir_b\<close>, else of two files with the
  first key below the second.
\<close>

definition candidate_pairs :: "bool \<Rightarrow> directory \<Rightarrow> (int \<times> int) list" where
  "candidate_pairs has_dir_b d =
     sort (map (\<lambda>(a, b). (key a, key b))
       (filter (\<lambda>(a, b). if has_dir_b then \<not> dir_b a \<and> dir_b b else key a < key b)
               (List.product d d)))"

definition insert_pairs :: "(int \<times> int) list \<Rightarrow> dif_table" where
  "insert_pairs ps =
     map (\<lambda>(k, (ka, kb)). \<lparr>dif_key = k, key_a = ka, key_b = kb, dif = -1, dif_success = -1,
                            block_a = None, block_b = None, block_key = None\<rparr>)
         (autoincrement ps)"

text \<open>The update that sets \<^verbatim>\<open>block_a\<close> and \<^verbatim>\<open>block_b\<close> of every row.\<close>

definition set_blocks :: "int \<Rightarrow> bool \<Rightarrow> directory \<Rightarrow> dif_table \<Rightarrow> dif_table" where
  "set_blocks block_size has_dir_b d t =
     map (\<lambda>r. r\<lparr>block_a := sql_div (Some (key_a r)) (Some block_size),
                block_b := (if has_dir_b
                            then sql_div (sql_sub (Some (key_b r)) (get_b_offset d)) (Some block_size)
                            else sql_div (Some (key_b r)) (Some block_size))\<rparr>) t"

text \<open>
  The table \<^verbatim>\<open>block_key_temp\<close>: the distinct pairs of blocks, ordered by
  \<^verbatim>\<open>block_a, block_b\<close> when \<^verbatim>\<open>has_dir_b\<close> and by \<^verbatim>\<open>(block_b - block_a), (block_b + block_a)\<close>
  otherwise (\<^verbatim>\<open>NULL\<close> sorts first), with keys 1, 2, ... in that order. \<open>block_order\<close> is the
  term of the \<^verbatim>\<open>ORDER BY\<close> clause.
\<close>

definition block_order :: "bool \<Rightarrow> int option \<times> int option \<Rightarrow> int option \<times> int option" where
  "block_order has_dir_b = (\<lambda>(a, b). if has_dir_b then (a, b) else (sql_sub b a, sql_add b a))"

definition block_key_temp :: "bool \<Rightarrow> dif_table \<Rightarrow> (int \<times> int option \<times> int option) list" where
  "block_key_temp has_dir_b t =
     autoincrement
       (sort_key (block_order has_dir_b) (remdups (map (\<lambda>r. (block_a r, block_b r)) t)))"

text \<open>
  The update of \<^verbatim>\<open>block_key\<close> from the temporary table; the comparison with \<^verbatim>\<open>=\<close> selects no
  row for a block that is \<^verbatim>\<open>NULL\<close>, and the scalar subquery is \<^verbatim>\<open>NULL\<close> then.
\<close>

definition set_block_keys :: "(int \<times> int option \<times> int option) list \<Rightarrow> dif_table \<Rightarrow> dif_table" where
  "set_block_keys temp t =
     map (\<lambda>r. r\<lparr>block_key :=
                  map_option fst
                    (find (\<lambda>(k, a, b). a \<noteq> None \<and> a = block_a r \<and> b \<noteq> None \<and> b = block_b r)
                          temp)\<rparr>) t"

definition prepopulate_diff_table :: "int \<Rightarrow> bool \<Rightarrow> directory \<Rightarrow> dif_table" where
  "prepopulate_diff_table block_size has_dir_b d =
     (let t = set_blocks block_size has_dir_b d (insert_pairs (candidate_pairs has_dir_b d))
      in set_block_keys (block_key_temp has_dir_b t) t)"

text \<open>
  \<^verbatim>\<open>SQLiteDB.get_cache_block_thumb\<close>: lower keys and sizes of a block, or four times -1 when
  the block has no row (the aggregate row is then \<^verbatim>\<open>(0, None, 0, None)\<close>).
\<close>

definition get_cache_block_thumb :: "int \<Rightarrow> dif_table \<Rightarrow> int \<times> int \<times> int \<times> int" where
  "get_cache_block_thumb bk t =
     (let rows = filter (\<lambda>r. block_key r = Some bk) t
      in case (sql_min (map key_a rows), sql_min (map key_b rows)) of
           (Some lower_key_x, Some lower_key_y) \<Rightarrow>
             (lower_key_x, lower_key_y,
              int (length (remdups (map key_a rows))), int (length (remdups (map key_b rows))))
         | _ \<Rightarrow> (-1, -1, -1, -1))"

text \<open>\<^verbatim>\<open>SQLiteDB.get_cache_block_original\<close>, with its two assertions on the number of paths.\<close>

definition get_cache_block_original ::
  "int \<Rightarrow> directory \<Rightarrow> dif_table \<Rightarrow> error + int \<times> int \<times> string list \<times> string list" where
  "get_cache_block_original bk d t =
     (case get_cache_block_thumb bk t of (lower_x, lower_y, size_x, size_y) \<Rightarrow>
        if (lower_x, lower_y, size_x, size_y) = (-1, -1, -1, -1) then Inr (-1, -1, [], [])
        else
          (let paths_a = map path (sql_limit size_x (filter (\<lambda>r. lower_x \<le> key r) d))
           in if int (length paths_a) \<noteq> size_x then Inl AssertionError
              else
                (let paths_b = map path (sql_limit size_y (filter (\<lambda>r. lower_y \<le> key r) d))
                 in if int (length paths_b) \<noteq> size_y then Inl AssertionError
                    else Inr (lower_x, lower_y, paths_a, paths_b))))"

text \<open>
  The join of the dif table with the directory table on both keys, for one row of the dif
  table: \<^verbatim>\<open>dif_table AS d JOIN directory AS a ON a.key = d.key_a JOIN directory AS b ON
  b.key = d.key_b\<close>. Its \<^verbatim>\<open>WHERE\<close> clauses below read columns of the dif table only, and so
  select the rows of the dif table that are joined.
\<close>

definition join_files :: "directory \<Rightarrow> dif_entry \<Rightarrow> (dif_entry \<times> file_entry \<times> file_entry) list" where
  "join_files d r = [(r, a, b). a \<leftarrow> d, key a = key_a r, b \<leftarrow> d, key b = key_b r]"

text \<open>
  \<^verbatim>\<open>SQLiteDB.get_item_block\<close>: the rows of a block that are not computed yet, joined with the
  paths of both files. The last component is the block key when it is asked for.
\<close>

definition get_item_block ::
  "int \<Rightarrow> bool \<Rightarrow> directory \<Rightarrow> dif_table
     \<Rightarrow> (int \<times> int \<times> int \<times> string \<times> string \<times> int option) list" where
  "get_item_block bk include_block_key d t =
     map (\<lambda>(r, a, b). (dif_key r, key_a r, key_b r, path a, path b,
                        if include_block_key then block_key r else None))
       (concat (map (join_files d)
                  (filter (\<lambda>r. block_key r = Some bk \<and> dif_success r = -1) t)))"

section \<open>Submitting a block of items\<close>

datatype ItemCompareArgs =
  ItemCompareArgs (item_key: int) (item_key_a: int) (item_key_b: int)
    (item_path_a: string) (item_path_b: string) (item_cache_key: "int option")

text \<open>An entry of the command queue: one argument, or a list of arguments.\<close>

datatype 'a cmd = CmdItem 'a | CmdList "'a list"

datatype item_block_result = ReturnBool bool | ReturnArgs "ItemCompareArgs list"

text \<open>
  The submit loop of \<^verbatim>\<open>__item_block\<close> for a positive step: the slices
  \<^verbatim>\<open>wrapped_args[i:i + batch_size]\<close> for \<^verbatim>\<open>i\<close> in \<^verbatim>\<open>range(0, len(wrapped_args), batch_size)\<close>.
  A slice goes to the queue whole when its length equals \<^verbatim>\<open>batch_args\<close> (a boolean, so 0
  or 1 in the comparison) and element by element otherwise.
\<close>

function put_slices :: "nat \<Rightarrow> bool \<Rightarrow> 'a list \<Rightarrow> 'a cmd list \<Rightarrow> 'a cmd list" where
  "put_slices n batch_args w q =
     (if n = 0 \<or> w = [] then q
      else put_slices n batch_args (drop n w)
             (q @ (if int (length (take n w)) = (if batch_args then 1 else 0)
                   then [CmdList (take n w)]
                   else map CmdItem (take n w))))"
  by pat_completeness auto
termination
  by (relation "measure (\<lambda>(n, b, w, q). length w)") auto

text \<open>
  \<^verbatim>\<open>range\<close> raises \<^verbatim>\<open>ValueError\<close> for a step of zero and is empty for a negative step.
\<close>

definition submit_args :: "int \<Rightarrow> bool \<Rightarrow> 'a list \<Rightarrow> 'a cmd list \<Rightarrow> error + 'a cmd list" where
  "submit_args batch_size batch_args w q =
     (if batch_size = 0 then Inl ValueError
      else if batch_size < 0 then Inr q
      else Inr (put_slices (nat batch_size) batch_args w q))"

text \<open>
  \<^verbatim>\<open>FastDifPy.__build_thumb_cache\<close> and \<^verbatim>\<open>FastDifPy.__build_org_cache\<close>, as far as they
  decide whether the call returns: the assertion on the configuration, the check that a
  block on the diagonal is a square, and for the originals the assertion on the paths
  (\<^verbatim>\<open>p_x[0]\<close> of an empty list raises \<^verbatim>\<open>IndexError\<close>). The caches they fill hold pixel data
  read from files and are not part of the state here.
\<close>

definition build_thumb_cache :: "config \<Rightarrow> int \<Rightarrow> int \<Rightarrow> int \<Rightarrow> int \<Rightarrow> error + unit" where
  "build_thumb_cache cfg l_x l_y s_x s_y =
     (if \<not> (second_loop_use_ram_cache cfg \<and> first_loop_compress cfg) then Inl AssertionError
      else if l_x + 1 = l_y \<and> s_x \<noteq> s_y then Inl ValueError
      else Inr ())"

definition build_org_cache ::
  "config \<Rightarrow> int \<Rightarrow> int \<Rightarrow> string list \<Rightarrow> string list \<Rightarrow> error + unit" where
  "build_org_cache cfg l_x l_y p_x p_y =
     (if \<not> (second_loop_use_ram_cache cfg \<and> \<not> first_loop_compress cfg) then Inl AssertionError
      else if l_x + 1 = l_y then
        (if length p_x \<noteq> length p_y then Inl ValueError
         else (case p_x of
                 [] \<Rightarrow> Inl IndexError
               | p # ps \<Rightarrow>
                   if set (p # p_y) \<noteq> set p_x \<union> set p_y then Inl AssertionError
                   else Inr ()))
      else Inr ())"

text \<open>
  \<^verbatim>\<open>FastDifPy.__item_block\<close> on the configuration, the command queue and the enqueue
  counter; it reads the two tables. In the branches that build a cache, the first
  component of the intermediate result says whether the stopping criterion was met.
\<close>

definition item_block ::
  "bool \<Rightarrow> directory \<Rightarrow> dif_table \<Rightarrow> config \<times> ItemCompareArgs cmd list \<times> int
     \<Rightarrow> error + item_block_result \<times> config \<times> ItemCompareArgs cmd list \<times> int" where
  "item_block submit d t st =
     (case st of (cfg, cmd_queue, enqueue_counter) \<Rightarrow>
      if second_loop_batch_args cfg then Inl AssertionError
      else
        (case (if second_loop_use_ram_cache cfg then
                 (if first_loop_compress cfg
                  then (case get_cache_block_thumb (second_loop_cache_index cfg) t of
                          (l_x, l_y, s_x, s_y) \<Rightarrow>
                            if (l_x, l_y, s_x, s_y) = (-1, -1, -1, -1) then Inr True
                            else (case build_thumb_cache cfg l_x l_y s_x s_y of
                                    Inl e \<Rightarrow> Inl e
                                  | Inr u \<Rightarrow> Inr False))
                  else (case get_cache_block_original (second_loop_cache_index cfg) d t of
                          Inl e \<Rightarrow> Inl e
                        | Inr (l_x, l_y, p_x, p_y) \<Rightarrow>
                            if (l_x, l_y, p_x, p_y) = (-1, -1, [], []) then Inr True
                            else (case build_org_cache cfg l_x l_y p_x p_y of
                                    Inl e \<Rightarrow> Inl e
                                  | Inr u \<Rightarrow> Inr False)))
               else Inr False) of
           Inl e \<Rightarrow> Inl e
         | Inr True \<Rightarrow> Inr (ReturnBool False, cfg, cmd_queue, enqueue_counter)
         | Inr False \<Rightarrow>
            (let args = get_item_block (second_loop_cache_index cfg)
                          (second_loop_use_ram_cache cfg) d t
             in if length args = 0 then Inr (ReturnBool False, cfg, cmd_queue, enqueue_counter)
                else
                  (let wrapped_args =
                         map (\<lambda>(k, ka, kb, path_a, path_b, bk). ItemCompareArgs k ka kb path_a path_b bk)
                             args
                   in if submit then
                        (case submit_args (second_loop_batch_size cfg) (second_loop_batch_args cfg)
                                wrapped_args cmd_queue of
                           Inl e \<Rightarrow> Inl e
                         | Inr q \<Rightarrow>
                             Inr (ReturnBool True,
                                  cfg\<lparr>second_loop_cache_index := second_loop_cache_index cfg + 1\<rparr>,
                                  q, enqueue_counter + int (length wrapped_args)))
                      else
                        Inr (ReturnArgs wrapped_args,
                             cfg\<lparr>second_loop_cache_index := second_loop_cache_index cfg + 1\<rparr>,
                             cmd_queue, enqueue_counter)))))"

section \<open>Dequeuing the results of the second loop\<close>

text \<open>
  The result queue and the counters of the driver. A message of the item queue is
  \<^verbatim>\<open>None\<close> (a worker exits), a list of results or one result; a message of the batch queue
  is \<^verbatim>\<open>None\<close> or one result.
\<close>

datatype 'r queue_msg = MsgNone | MsgList "'r list" | MsgItem 'r

record 'm loop_state =
  result_queue :: "'m list"
  enqueue_counter :: int
  dequeue_counter :: int
  exit_counter :: int

text \<open>
  The loop of \<^verbatim>\<open>FastDifPy.dequeue_second_loop_item\<close>. The condition reads the dequeue
  counter of the driver, which this function only updates after the loop; inside the
  loop it counts in the local variable \<^verbatim>\<open>count\<close>, here \<open>cnt\<close>.
\<close>

fun item_loop ::
  "int \<Rightarrow> bool \<Rightarrow> int \<Rightarrow> int \<Rightarrow> 'r queue_msg list \<Rightarrow> 'r list \<times> int \<times> int
     \<Rightarrow> 'r queue_msg list \<times> 'r list \<times> int \<times> int" where
  "item_loop batch_size drain enq deq [] acc = ([], acc)"
| "item_loop batch_size drain enq deq (res # q) (results, cnt, exits) =
     (if deq + (batch_size ^ 2) * 2 < enq \<or> drain then
        (case res of
           MsgNone \<Rightarrow> item_loop batch_size drain enq deq q (results, cnt, exits + 1)
         | MsgList rs \<Rightarrow>
             item_loop batch_size drain enq deq q (results @ rs, cnt + int (length rs), exits)
         | MsgItem r \<Rightarrow> item_loop batch_size drain enq deq q (results @ [r], cnt + 1, exits))
      else (res # q, results, cnt, exits))"

text \<open>
  \<^verbatim>\<open>FastDifPy.dequeue_second_loop_item\<close>: returns the results it hands to
  \<^verbatim>\<open>store_item_second_loop\<close>, and the state.
\<close>

definition dequeue_second_loop_item ::
  "config \<Rightarrow> bool \<Rightarrow> 'r queue_msg loop_state \<Rightarrow> 'r list \<times> 'r queue_msg loop_state" where
  "dequeue_second_loop_item cfg drain st =
     (case item_loop (second_loop_batch_size cfg) drain (enqueue_counter st) (dequeue_counter st)
             (result_queue st) ([], 0, exit_counter st) of
        (q, results, cnt, exits) \<Rightarrow>
          (results, st\<lparr>result_queue := q, exit_counter := exits,
                       dequeue_counter := dequeue_counter st + cnt\<rparr>))"

text \<open>
  The loop of \<^verbatim>\<open>FastDifPy.dequeue_second_loop_batch\<close>, which advances the dequeue counter
  of the driver with every result. \<^verbatim>\<open>handles\<close> is \<^verbatim>\<open>len(self.handles)\<close>.
\<close>

fun batch_loop ::
  "int \<Rightarrow> nat \<Rightarrow> bool \<Rightarrow> int \<Rightarrow> 'r option list \<Rightarrow> 'r list \<times> int \<times> int
     \<Rightarrow> 'r option list \<times> 'r list \<times> int \<times> int" where
  "batch_loop batch_size handles drain enq [] acc = ([], acc)"
| "batch_loop batch_size handles drain enq (res # q) (results, deq, exits) =
     (if deq + batch_size * int handles < enq \<or> drain then
        (case res of
           None \<Rightarrow> batch_loop batch_size handles drain enq q (results, deq, exits + 1)
         | Some r \<Rightarrow> batch_loop batch_size handles drain enq q (results @ [r], deq + 1, exits))
      else (res # q, results, deq, exits))"

text \<open>
  \<^verbatim>\<open>FastDifPy.dequeue_second_loop_batch\<close>: returns the results it hands to
  \<^verbatim>\<open>store_batch_second_loop\<close>, and the state.
\<close>

definition dequeue_second_loop_batch ::
  "config \<Rightarrow> nat \<Rightarrow> bool \<Rightarrow> 'r option loop_state \<Rightarrow> 'r list \<times> 'r option loop_state" where
  "dequeue_second_loop_batch cfg handles drain st =
     (case batch_loop (second_loop_batch_size cfg) handles drain (enqueue_counter st)
             (result_queue st) ([], dequeue_counter st, exit_counter st) of
        (q, results, deq, exits) \<Rightarrow>
          (results, st\<lparr>result_queue := q, exit_counter := exits, dequeue_counter := deq\<rparr>))"

section \<open>Errors of comparisons and the query surface\<close>

text \<open>
  \<^verbatim>\<open>SQLiteDB.insert_batch_diff_error\<close>. \<^verbatim>\<open>errors\<close> is a dictionary, here the list of its
  items. First every row of the dif table with one of the keys gets \<^verbatim>\<open>success = 0\<close>; then
  one row per item goes into the error table, whose key is its primary key, so a key it
  holds already is a constraint violation. The key is the rowid of the table, and a new
  row takes its place in the order of the keys.
\<close>

definition set_diff_error :: "int \<Rightarrow> dif_table \<Rightarrow> dif_table" where
  "set_diff_error k t = map (\<lambda>r. if dif_key r = k then r\<lparr>dif_success := 0\<rparr> else r) t"

fun insert_diff_errors ::
  "(int \<times> string) list \<Rightarrow> dif_error_table \<Rightarrow> error + dif_error_table" where
  "insert_diff_errors [] e = Inr e"
| "insert_diff_errors ((k, v) # args) e =
     (if k \<in> fst ` set e then Inl IntegrityError
      else insert_diff_errors args (insort_key fst (k, v) e))"

definition insert_batch_diff_error ::
  "(string \<Rightarrow> string) \<Rightarrow> (int \<times> string) list \<Rightarrow> dif_table \<times> dif_error_table
     \<Rightarrow> error + dif_table \<times> dif_error_table" where
  "insert_batch_diff_error to_b64 errors st =
     (case st of (t, e) \<Rightarrow>
        (let t' = fold (\<lambda>(k, v). set_diff_error k) errors t
         in case insert_diff_errors (map (\<lambda>(k, v). (k, to_b64 v)) errors) e of
              Inl err \<Rightarrow> Inl err
            | Inr e' \<Rightarrow> Inr (t', e')))"

text \<open>
  The statement of \<^verbatim>\<open>SQLiteDB.get_duplicate_pairs\<close> and \<^verbatim>\<open>SQLiteDB.get_cluster\<close> before its
  projection on the two paths and the difference: the rows of the dif table joined with
  the directory rows of both keys, those below the threshold with \<^verbatim>\<open>success = 1\<close>,
  ordered by \<^verbatim>\<open>key_a, key_b\<close> or, for clusters of partition B, by \<^verbatim>\<open>key_b, key_a\<close>.
\<close>

definition select_duplicates ::
  "bool \<Rightarrow> real \<Rightarrow> directory \<Rightarrow> dif_table \<Rightarrow> (dif_entry \<times> file_entry \<times> file_entry) list" where
  "select_duplicates group_a delta d t =
     sort_key (\<lambda>(r, a, b). if group_a then (key_a r, key_b r) else (key_b r, key_a r))
       (concat (map (join_files d) (filter (\<lambda>r. dif r < delta \<and> dif_success r = 1) t)))"

definition get_duplicate_pairs :: "real \<Rightarrow> directory \<Rightarrow> dif_table \<Rightarrow> (string \<times> string \<times> real) list" where
  "get_duplicate_pairs delta d t =
     map (\<lambda>(r, a, b). (path a, path b, dif r)) (select_duplicates True delta d t)"

text \<open>
  A Python dictionary built by a comprehension, as the list of its items: a key that
  comes again keeps its place and takes the new value.
\<close>

fun dict_set :: "'k \<Rightarrow> 'v \<Rightarrow> ('k \<times> 'v) list \<Rightarrow> ('k \<times> 'v) list" where
  "dict_set k v [] = [(k, v)]"
| "dict_set k v ((k', v') # m) = (if k = k' then (k, v) # m else (k', v') # dict_set k v m)"

definition cluster_dict :: "bool \<Rightarrow> (string \<times> string \<times> real) list \<Rightarrow> (string \<times> real) list" where
  "cluster_dict group_a acc =
     fold (\<lambda>r. dict_set (if group_a then fst (snd r) else fst r) (snd (snd r))) acc []"

text \<open>
  The loop of \<^verbatim>\<open>SQLiteDB.get_cluster\<close> over the rows that remain, with the current head
  and the accumulated rows; the result is the list of what the generator yields.
\<close>

fun cluster_loop ::
  "bool \<Rightarrow> string \<Rightarrow> (string \<times> string \<times> real) list \<Rightarrow> (string \<times> string \<times> real) list
     \<Rightarrow> (string \<times> (string \<times> real) list) list" where
  "cluster_loop group_a head acc [] = [(head, cluster_dict group_a acc)]"
| "cluster_loop group_a head acc (row # rows) =
     (if (if group_a then fst row else fst (snd row)) = head
      then cluster_loop group_a head (acc @ [row]) rows
      else (head, cluster_dict group_a acc) #
           cluster_loop group_a (if group_a then fst row else fst (snd row)) [row] rows)"

text \<open>
  \<^verbatim>\<open>SQLiteDB.get_cluster\<close>: without a first row the generator returns before it yields.
\<close>

definition get_cluster ::
  "real \<Rightarrow> bool \<Rightarrow> directory \<Rightarrow> dif_table \<Rightarrow> (string \<times> (string \<times> real) list) list" where
  "get_cluster delta group_a d t =
     (case map (\<lambda>(r, a, b). (path a, path b, dif r)) (select_duplicates group_a delta d t) of
        [] \<Rightarrow> []
      | row # rows \<Rightarrow>
          cluster_loop group_a (if group_a then fst row else fst (snd row)) [row] rows)"

section \<open>The order of the blocks, in the words of the specification\<close>

text \<open>
  Row-major order of pairs of blocks is the order by \<^verbatim>\<open>block_a\<close>, then \<^verbatim>\<open>block_b\<close>;
  diagonal-major order is the order by \<^verbatim>\<open>block_b - block_a\<close>, then \<^verbatim>\<open>block_b + block_a\<close>. The
  dense rank of a pair among the distinct pairs of a table is one more than the number of
  distinct pairs strictly before it.
\<close>

definition row_major_before :: "int \<times> int \<Rightarrow> int \<times> int \<Rightarrow> bool" where
  "row_major_before p q = (fst p < fst q \<or> (fst p = fst q \<and> snd p < snd q))"

definition diagonal_before :: "int \<times> int \<Rightarrow> int \<times> int \<Rightarrow> bool" where
  "diagonal_before p q =
     (snd p - fst p < snd q - fst q
      \<or> (snd p - fst p = snd q - fst q \<and> snd p + fst p < snd q + fst q))"

definition block_pairs :: "dif_table \<Rightarrow> (int \<times> int) set" where
  "block_pairs t =
     set (concat (map (\<lambda>r. case (block_a r, block_b r) of
                               (Some a, Some b) \<Rightarrow> [(a, b)]
                             | _ \<Rightarrow> []) t))"

definition dense_rank :: "('a \<Rightarrow> 'a \<Rightarrow> bool) \<Rightarrow> 'a set \<Rightarrow> 'a \<Rightarrow> int" where
  "dense_rank before S x = 1 + int (card {y \<in> S. before y x})"

section \<open>Example catalogs\<close>

text \<open>
  A directory row as the indexer leaves it, but for the key, the path, the partition and
  the state of preprocessing; and a configuration for a run on one directory.
\<close>

definition file_row :: "int \<Rightarrow> string \<Rightarrow> bool \<Rightarrow> int \<Rightarrow> file_entry" where
  "file_row k p b s =
     \<lparr>key = k, path = p, filename = p, error = None, success = s, px = -1, py = -1,
      dir_b = b, hash_0 = None, hash_90 = None, hash_180 = None, hash_270 = None\<rparr>"

definition three_files :: directory where
  "three_files = [file_row 0 ''x.jpg'' False (-1), file_row 1 ''y.jpg'' False (-1),
                  file_row 2 ''z.jpg'' False 1]"

text \<open>
  A row of the dif table in block 1, and a dif table over the three files: two pairs
  compared, one not yet.
\<close>

definition pair_row :: "int \<Rightarrow> int \<Rightarrow> int \<Rightarrow> real \<Rightarrow> int \<Rightarrow> dif_entry" where
  "pair_row k ka kb x s =
     \<lparr>dif_key = k, key_a = ka, key_b = kb, dif = x, dif_success = s,
      block_a = Some 0, block_b = Some 0, block_key = Some 1\<rparr>"

definition three_pairs :: dif_table where
  "three_pairs = [pair_row 1 0 1 0 1, pair_row 2 0 2 3 1, pair_row 3 1 2 (-1) (-1)]"

text \<open>A configuration of the second loop in item mode, with blocks of side 2.\<close>

definition item_config :: config where
  "item_config =
     \<lparr>root_dir_a = ''/a'', root_dir_b = None, first_loop_compress = True,
      first_loop_compute_hash = True, second_loop_batch_size = 2,
      second_loop_batch_args = False, second_loop_use_ram_cache = False,
      second_loop_skip_matching_hash = True, second_loop_cache_index = 1\<rparr>"

text \<open>The same configuration for a run on two directories.\<close>

definition two_dir_config :: config where
  "two_dir_config = item_config\<lparr>root_dir_b := Some ''/b''\<rparr>"

text \<open>A catalog of two partitions with two files each.\<close>

definition two_by_two :: directory where
  "two_by_two = [file_row 0 ''/a/x.jpg'' False 1, file_row 1 ''/a/y.jpg'' False 1,
                 file_row 2 ''/b/x.jpg'' True 1, file_row 3 ''/b/y.jpg'' True 1]"

text \<open>
  A catalog of one directory with a file and its copy, both preprocessed, with the same
  four hashes; and a preprocessing result that failed, as the worker sends it: the key and
  the error, no size and no hash.
\<close>

definition two_copies :: directory where
  "two_copies =
     [\<lparr>key = 0, path = ''/a/x.jpg'', filename = ''x.jpg'', error = None, success = 1,
       px = 100, py = 100, dir_b = False, hash_0 = Some 1, hash_90 = Some 2,
       hash_180 = Some 3, hash_270 = Some 4\<rparr>,
      \<lparr>key = 1, path = ''/a/y.jpg'', filename = ''y.jpg'', error = None, success = 1,
       px = 100, py = 100, dir_b = False, hash_0 = Some 1, hash_90 = Some 2,
       hash_180 = Some 3, hash_270 = Some 4\<rparr>]"

definition failed_result :: "string PreprocessResult" where
  "failed_result =
     \<lparr>res_key = 0, org_x = -1, org_y = -1, res_hash_0 = None, res_hash_90 = None,
      res_hash_180 = None, res_hash_270 = None, res_error = Some ''cannot identify image file''\<rparr>"

text \<open>The configuration of the second loop in batch mode.\<close>

definition batch_config :: config where
  "batch_config = item_config\<lparr>second_loop_batch_args := True, second_loop_skip_matching_hash := False\<rparr>"

section \<open>Inserting files into the directory table\<close>

lemma fold_max_ge: "(a::int) \<le> fold max xs a"
proof (induction xs arbitrary: a)
  case (Cons x xs)
  have "a \<le> max x a" by simp
  also have "\<dots> \<le> fold max xs (max x a)" by (rule Cons.IH)
  finally show ?case by simp
qed simp

lemma fold_max_mem: "(x::int) \<in> set xs \<Longrightarrow> x \<le> fold max xs a"
proof (induction xs arbitrary: a)
  case (Cons y xs)
  show ?case
  proof (cases "x = y")
    case True
    have "x \<le> max y a" using True by simp
    also have "\<dots> \<le> fold max xs (max y a)" by (rule fold_max_ge)
    finally show ?thesis by simp
  next
    case False
    with Cons.prems have "x \<in> set xs" by simp
    from Cons.IH[OF this] show ?thesis by simp
  qed
qed simp

lemma insert_directory_row_fresh:
  assumes "\<forall>r \<in> set d. path r = p \<longrightarrow> dir_b r \<noteq> b"
  shows "\<exists>r k. insert_directory_row (p, f, b) (d, seq) = Inr (d @ [r], k)
           \<and> path r = p \<and> filename r = f \<and> dir_b r = b \<and> success r = -1 \<and> key r = k
           \<and> seq < k \<and> (\<forall>x \<in> set d. key x < k)"
proof -
  define k where "k = max seq (fold max (map key d) 0) + 1"
  have "\<forall>x \<in> set d. key x < k"
  proof
    fix x assume "x \<in> set d"
    then have "key x \<in> set (map key d)" by simp
    from fold_max_mem[OF this, of 0] show "key x < k" unfolding k_def by simp
  qed
  moreover have "seq < k" unfolding k_def by simp
  moreover have "\<not> (\<exists>r \<in> set d. path r = p \<and> dir_b r = b)" using assms by blast
  ultimately show ?thesis
    by (simp add: insert_directory_row_def Let_def k_def)
qed

lemma insert_directory_row_dup:
  "\<exists>r \<in> set d. path r = p \<and> dir_b r = b
     \<Longrightarrow> insert_directory_row (p, f, b) (d, seq) = Inl IntegrityError"
  by (simp add: insert_directory_row_def)

lemma insert_directory_rows_ok:
  "distinct (map g fs)
   \<Longrightarrow> \<forall>f \<in> set fs. \<forall>r \<in> set d. path r = g f \<longrightarrow> dir_b r \<noteq> b
   \<Longrightarrow> \<exists>d' seq'. insert_directory_rows (map (\<lambda>f. (g f, f, b)) fs) (d, seq) = Inr (d @ d', seq')
         \<and> map path d' = map g fs \<and> map filename d' = fs
         \<and> (\<forall>r \<in> set d'. dir_b r = b \<and> success r = -1 \<and> seq < key r
                \<and> (\<forall>x \<in> set d. key x < key r))
         \<and> distinct (map key d')"
proof (induction fs arbitrary: d seq)
  case Nil
  then show ?case by simp
next
  case (Cons f fs)
  have "\<forall>r \<in> set d. path r = g f \<longrightarrow> dir_b r \<noteq> b" using Cons.prems(2) by simp
  from insert_directory_row_fresh[OF this, of f seq] obtain r k where
    step: "insert_directory_row (g f, f, b) (d, seq) = Inr (d @ [r], k)"
    and r: "path r = g f" "filename r = f" "dir_b r = b" "success r = -1" "key r = k"
    and k: "seq < k" "\<forall>x \<in> set d. key x < k" by blast
  have 1: "distinct (map g fs)" using Cons.prems(1) by simp
  have 2: "\<forall>f' \<in> set fs. \<forall>x \<in> set (d @ [r]). path x = g f' \<longrightarrow> dir_b x \<noteq> b"
    using Cons.prems r by auto
  from Cons.IH[OF 1 2, of k] obtain d' seq' where
    ih: "insert_directory_rows (map (\<lambda>f. (g f, f, b)) fs) (d @ [r], k) = Inr ((d @ [r]) @ d', seq')"
      "map path d' = map g fs" "map filename d' = fs"
      "\<forall>x \<in> set d'. dir_b x = b \<and> success x = -1 \<and> k < key x
           \<and> (\<forall>y \<in> set (d @ [r]). key y < key x)"
      "distinct (map key d')" by blast
  have a: "insert_directory_rows (map (\<lambda>f. (g f, f, b)) (f # fs)) (d, seq) = Inr (d @ (r # d'), seq')"
    using step ih(1) by simp
  have b: "map path (r # d') = map g (f # fs)" "map filename (r # d') = f # fs"
    using r ih by simp_all
  have c: "\<forall>x \<in> set (r # d'). dir_b x = b \<and> success x = -1 \<and> seq < key x
                \<and> (\<forall>y \<in> set d. key y < key x)"
    using r k ih(4) by fastforce
  have d: "distinct (map key (r # d'))"
    using ih(4,5) r by fastforce
  show ?case
    apply (rule exI[of _ "r # d'"])
    apply (rule exI[of _ seq'])
    using a b c d apply (intro conjI)
    apply assumption+
    done
qed

lemma insert_directory_rows_dup:
  "\<not> (distinct (map g fs) \<and> (\<forall>f \<in> set fs. \<forall>r \<in> set d. path r = g f \<longrightarrow> dir_b r \<noteq> b))
   \<Longrightarrow> insert_directory_rows (map (\<lambda>f. (g f, f, b)) fs) (d, seq) = Inl IntegrityError"
proof (induction fs arbitrary: d seq)
  case Nil
  then show ?case by simp
next
  case (Cons f fs)
  show ?case
  proof (cases "\<exists>r \<in> set d. path r = g f \<and> dir_b r = b")
    case True
    from insert_directory_row_dup[OF this] show ?thesis by simp
  next
    case False
    then have "\<forall>r \<in> set d. path r = g f \<longrightarrow> dir_b r \<noteq> b" by blast
    from insert_directory_row_fresh[OF this, of f seq] obtain r k where
      step: "insert_directory_row (g f, f, b) (d, seq) = Inr (d @ [r], k)"
      and r: "path r = g f" "dir_b r = b" by blast
    have "\<not> (distinct (map g fs)
               \<and> (\<forall>f' \<in> set fs. \<forall>x \<in> set (d @ [r]). path x = g f' \<longrightarrow> dir_b x \<noteq> b))"
    proof
      assume h: "distinct (map g fs)
               \<and> (\<forall>f' \<in> set fs. \<forall>x \<in> set (d @ [r]). path x = g f' \<longrightarrow> dir_b x \<noteq> b)"
      then have "g f \<notin> set (map g fs)" using r by auto
      with h have "distinct (map g (f # fs))" by simp
      moreover have "\<forall>f' \<in> set (f # fs). \<forall>x \<in> set d. path x = g f' \<longrightarrow> dir_b x \<noteq> b"
        using h False by auto
      ultimately show False using Cons.prems by blast
    qed
    from Cons.IH[OF this, of k] step show ?thesis by simp
  qed
qed


text \<open>
  Claim C6, as the code has it. \<^const>\<open>bulk_insert_file\<close> only appends: when the joined paths
  of the file names are distinct and none of them is the path of a row of the same
  partition, it succeeds, the table keeps its rows in place and gains one row per file
  name, in order, with the joined path, the file name, the partition, \<^verbatim>\<open>success = -1\<close> and
  a key above every key of the table. A duplicate of path and partition is not ignored:
  in every other case the call raises \<^verbatim>\<open>IntegrityError\<close>.
\<close>

theorem bulk_insert_file_append_or_raise:
  "(if distinct (map (os_path_join p) filenames)
       \<and> (\<forall>f \<in> set filenames. \<forall>r \<in> set d. path r = os_path_join p f \<longrightarrow> dir_b r \<noteq> b)
    then \<exists>d' seq'. bulk_insert_file p filenames b (d, seq) = Inr (d @ d', seq')
           \<and> map path d' = map (os_path_join p) filenames
           \<and> map filename d' = filenames
           \<and> (\<forall>r \<in> set d'. dir_b r = b \<and> success r = -1 \<and> seq < key r
                  \<and> (\<forall>x \<in> set d. key x < key r))
           \<and> distinct (map key d')
    else bulk_insert_file p filenames b (d, seq) = Inl IntegrityError)"
proof (cases "distinct (map (os_path_join p) filenames)
       \<and> (\<forall>f \<in> set filenames. \<forall>r \<in> set d. path r = os_path_join p f \<longrightarrow> dir_b r \<noteq> b)")
  case True
  then have 1: "distinct (map (os_path_join p) filenames)"
    and 2: "\<forall>f \<in> set filenames. \<forall>r \<in> set d. path r = os_path_join p f \<longrightarrow> dir_b r \<noteq> b"
    by blast+
  from insert_directory_rows_ok[OF 1 2, of seq] True show ?thesis
    unfolding bulk_insert_file_def by simp
next
  case False
  from insert_directory_rows_dup[OF this, of seq] False show ?thesis
    unfolding bulk_insert_file_def by simp
qed

theorem bulk_insert_file_append_or_raise_witness:
  "distinct (map (os_path_join ''/d'') [''b.jpg'', ''c.jpg''])
   \<and> (\<exists>d' seq'. bulk_insert_file ''/d'' [''b.jpg'', ''c.jpg''] False
                     ([file_row 1 ''/d/a.jpg'' False (-1)], 1)
                  = Inr ([file_row 1 ''/d/a.jpg'' False (-1)] @ d', seq')
                \<and> map path d' = map (os_path_join ''/d'') [''b.jpg'', ''c.jpg'']
                \<and> map filename d' = [''b.jpg'', ''c.jpg''])
   \<and> map (os_path_join ''/d'') [''b.jpg'', ''c.jpg''] = [''/d/b.jpg'', ''/d/c.jpg'']
   \<and> bulk_insert_file ''/d'' [''a.jpg''] True ([file_row 1 ''/d/a.jpg'' False (-1)], 1)
       = Inr ([file_row 1 ''/d/a.jpg'' False (-1),
               file_row 2 ''/d/a.jpg'' True (-1)\<lparr>filename := ''a.jpg''\<rparr>], 2)"
proof -
  have j: "map (os_path_join ''/d'') [''b.jpg'', ''c.jpg''] = [''/d/b.jpg'', ''/d/c.jpg'']"
    by (simp add: os_path_join_def)
  have h1: "distinct (map (os_path_join ''/d'') [''b.jpg'', ''c.jpg''])"
    unfolding j by simp
  have h2: "\<forall>f \<in> set [''b.jpg'', ''c.jpg'']. \<forall>r \<in> set [file_row 1 ''/d/a.jpg'' False (-1)].
              path r = os_path_join ''/d'' f \<longrightarrow> dir_b r \<noteq> False"
    by (simp add: os_path_join_def file_row_def)
  have H: "distinct (map (os_path_join ''/d'') [''b.jpg'', ''c.jpg''])
       \<and> (\<forall>f \<in> set [''b.jpg'', ''c.jpg'']. \<forall>r \<in> set [file_row 1 ''/d/a.jpg'' False (-1)].
              path r = os_path_join ''/d'' f \<longrightarrow> dir_b r \<noteq> False)"
    using h1 h2 by (rule conjI)
  note t = bulk_insert_file_append_or_raise[of "''/d''" "[''b.jpg'', ''c.jpg'']"
         "[file_row 1 ''/d/a.jpg'' False (-1)]" False 1]
  have e: "\<exists>d' seq'. bulk_insert_file ''/d'' [''b.jpg'', ''c.jpg''] False
                     ([file_row 1 ''/d/a.jpg'' False (-1)], 1)
                  = Inr ([file_row 1 ''/d/a.jpg'' False (-1)] @ d', seq')
                \<and> map path d' = map (os_path_join ''/d'') [''b.jpg'', ''c.jpg'']
                \<and> map filename d' = [''b.jpg'', ''c.jpg'']"
    using t unfolding if_P[OF H]
    apply (elim exE conjE)
    apply (intro exI conjI)
      apply assumption+
    done
  have c: "bulk_insert_file ''/d'' [''a.jpg''] True ([file_row 1 ''/d/a.jpg'' False (-1)], 1)
       = Inr ([file_row 1 ''/d/a.jpg'' False (-1),
               file_row 2 ''/d/a.jpg'' True (-1)\<lparr>filename := ''a.jpg''\<rparr>], 2)"
    by (simp add: bulk_insert_file_def insert_directory_row_def os_path_join_def file_row_def)
  from h1 e j c show ?thesis by (intro conjI)
qed

text \<open>
  The claim fails where a file is inserted a second time: the call raises, it does not
  leave the table as it is.
\<close>

theorem bulk_insert_file_duplicate_counterexample:
  "bulk_insert_file ''/d'' [''a.jpg''] False ([file_row 1 ''/d/a.jpg'' False (-1)], 1)
     = Inl IntegrityError"
  by (simp add: bulk_insert_file_def insert_directory_row_def os_path_join_def file_row_def)

section \<open>Swapping the partitions\<close>

lemma map_snd_autoincrement: "map snd (autoincrement xs) = xs"
proof -
  have "map snd (autoincrement xs) = map snd (enumerate 1 xs)"
    by (simp add: autoincrement_def split_def comp_def)
  then show ?thesis by simp
qed

lemma map_fst_autoincrement: "map fst (autoincrement xs) = map int [1..<Suc (length xs)]"
proof -
  have "map fst (autoincrement xs) = map int (map fst (enumerate 1 xs))"
    unfolding autoincrement_def by (simp only: map_map comp_def split_def fst_conv)
  also have "\<dots> = map int [1..<1 + length xs]"
    by (simp only: map_fst_enumerate)
  finally show ?thesis by (simp only: plus_1_eq_Suc)
qed

lemma length_autoincrement: "length (autoincrement xs) = length xs"
  by (simp add: autoincrement_def)

lemma swap_dir_b_keys: "map key (swap_dir_b d) = map int [1..<Suc (length d)]"
proof -
  define L where "L = map (\<lambda>r. r\<lparr>dir_b := False\<rparr>) (filter dir_b d) @
                       map (\<lambda>r. r\<lparr>dir_b := True\<rparr>) (filter (\<lambda>r. \<not> dir_b r) d)"
  have "length L = length d"
    unfolding L_def using sum_length_filter_compl[of dir_b d] by simp
  moreover have "map key (swap_dir_b d) = map fst (autoincrement L)"
    by (simp add: swap_dir_b_def L_def[symmetric] split_def comp_def)
  ultimately show ?thesis by (simp add: map_fst_autoincrement)
qed

lemma swap_dir_b_rows:
  "map (\<lambda>r. r\<lparr>key := 0\<rparr>) (swap_dir_b d)
     = map (\<lambda>r. r\<lparr>key := 0, dir_b := \<not> dir_b r\<rparr>) (filter dir_b d) @
       map (\<lambda>r. r\<lparr>key := 0, dir_b := \<not> dir_b r\<rparr>) (filter (\<lambda>r. \<not> dir_b r) d)"
proof -
  define L where "L = map (\<lambda>r. r\<lparr>dir_b := False\<rparr>) (filter dir_b d) @
                       map (\<lambda>r. r\<lparr>dir_b := True\<rparr>) (filter (\<lambda>r. \<not> dir_b r) d)"
  have "map (\<lambda>r. r\<lparr>key := 0\<rparr>) (swap_dir_b d)
          = map (\<lambda>r. r\<lparr>key := 0\<rparr>) (map snd (autoincrement L))"
    by (simp add: swap_dir_b_def L_def[symmetric] split_def comp_def)
  also have "\<dots> = map (\<lambda>r. r\<lparr>key := 0\<rparr>) L" by (simp only: map_snd_autoincrement)
  also have "\<dots> = map (\<lambda>r. r\<lparr>key := 0, dir_b := \<not> dir_b r\<rparr>) (filter dir_b d) @
       map (\<lambda>r. r\<lparr>key := 0, dir_b := \<not> dir_b r\<rparr>) (filter (\<lambda>r. \<not> dir_b r) d)"
    unfolding L_def by (auto simp: comp_def)
  finally show ?thesis .
qed

lemma swap_dir_b_mset:
  "mset (map (\<lambda>r. r\<lparr>key := 0\<rparr>) (swap_dir_b d))
     = mset (map (\<lambda>r. r\<lparr>key := 0, dir_b := \<not> dir_b r\<rparr>) d)"
proof -
  let ?f = "\<lambda>r. r\<lparr>key := 0, dir_b := \<not> dir_b r\<rparr>"
  have part: "mset (filter dir_b d) + mset (filter (\<lambda>r. \<not> dir_b r) d) = mset d"
    by (induction d) auto
  have "mset (map (\<lambda>r. r\<lparr>key := 0\<rparr>) (swap_dir_b d))
      = image_mset ?f (mset (filter dir_b d)) + image_mset ?f (mset (filter (\<lambda>r. \<not> dir_b r) d))"
    by (simp only: swap_dir_b_rows mset_append mset_map)
  also have "\<dots> = image_mset ?f (mset (filter dir_b d) + mset (filter (\<lambda>r. \<not> dir_b r) d))"
    by (simp only: image_mset_union)
  also have "\<dots> = image_mset ?f (mset d)" by (simp only: part)
  also have "\<dots> = mset (map ?f d)" by (simp only: mset_map)
  finally show ?thesis .
qed

lemma swap_dir_b_counts:
  "get_dir_entry_count b (swap_dir_b d) = get_dir_entry_count (\<not> b) d"
proof -
  have "length (filter (\<lambda>r. dir_b r = b) (swap_dir_b d))
        = length (filter (\<lambda>r. dir_b r = b) (map (\<lambda>r. r\<lparr>key := 0\<rparr>) (swap_dir_b d)))"
    by (simp add: filter_map comp_def)
  also have "\<dots> = length (filter (\<lambda>r. dir_b r = (\<not> b)) d)"
    unfolding swap_dir_b_rows
    by (cases b) (auto simp: filter_map comp_def intro!: arg_cong[where f=length] filter_cong)
  finally show ?thesis by (simp add: get_dir_entry_count_def)
qed


text \<open>
  Claim C1, as the code has it. \<^const>\<open>cond_switch_a_b\<close> swaps exactly when a second root is
  configured and partition A holds more files than partition B. Then the configured roots
  change places and the table is rebuilt: apart from the keys, its rows are the old rows
  with every partition label exchanged, the rows that were of partition B first, in their
  old order, then the rows that were of partition A, in theirs; the keys are 1, 2, ... in
  the order of the new table; and the two partitions have exchanged their sizes, so that
  A is now the smaller.
  In every other case, configuration and table are unchanged.
\<close>

theorem cond_switch_a_b_when_a_larger:
  "(if root_dir_b cfg \<noteq> None \<and> get_dir_entry_count True d < get_dir_entry_count False d
    then fst (cond_switch_a_b (cfg, d))
           = cfg\<lparr>root_dir_a := the (root_dir_b cfg), root_dir_b := Some (root_dir_a cfg)\<rparr>
       \<and> mset (map (\<lambda>r. r\<lparr>key := 0\<rparr>) (snd (cond_switch_a_b (cfg, d))))
           = mset (map (\<lambda>r. r\<lparr>key := 0, dir_b := \<not> dir_b r\<rparr>) d)
       \<and> map (\<lambda>r. r\<lparr>key := 0\<rparr>) (snd (cond_switch_a_b (cfg, d)))
           = map (\<lambda>r. r\<lparr>key := 0, dir_b := \<not> dir_b r\<rparr>) (filter dir_b d) @
             map (\<lambda>r. r\<lparr>key := 0, dir_b := \<not> dir_b r\<rparr>) (filter (\<lambda>r. \<not> dir_b r) d)
       \<and> map key (snd (cond_switch_a_b (cfg, d))) = map int [1..<Suc (length d)]
       \<and> get_dir_entry_count False (snd (cond_switch_a_b (cfg, d))) = get_dir_entry_count True d
       \<and> get_dir_entry_count True (snd (cond_switch_a_b (cfg, d))) = get_dir_entry_count False d
    else cond_switch_a_b (cfg, d) = (cfg, d))"
proof (cases "root_dir_b cfg")
  case None
  then show ?thesis by (simp add: cond_switch_a_b_def)
next
  case (Some b)
  show ?thesis
  proof (cases "get_dir_entry_count True d < get_dir_entry_count False d")
    case False
    with Some show ?thesis by (simp add: cond_switch_a_b_def)
  next
    case True
    with Some have c: "cond_switch_a_b (cfg, d)
        = (cfg\<lparr>root_dir_a := b, root_dir_b := Some (root_dir_a cfg)\<rparr>, swap_dir_b d)"
      by (simp add: cond_switch_a_b_def)
    have H: "root_dir_b cfg \<noteq> None \<and> get_dir_entry_count True d < get_dir_entry_count False d"
      using True Some by simp
    have 1: "fst (cond_switch_a_b (cfg, d))
           = cfg\<lparr>root_dir_a := the (root_dir_b cfg), root_dir_b := Some (root_dir_a cfg)\<rparr>"
      unfolding c using Some by simp
    have 2: "mset (map (\<lambda>r. r\<lparr>key := 0\<rparr>) (snd (cond_switch_a_b (cfg, d))))
           = mset (map (\<lambda>r. r\<lparr>key := 0, dir_b := \<not> dir_b r\<rparr>) d)"
      unfolding c snd_conv by (rule swap_dir_b_mset)
    have rows: "map (\<lambda>r. r\<lparr>key := 0\<rparr>) (snd (cond_switch_a_b (cfg, d)))
           = map (\<lambda>r. r\<lparr>key := 0, dir_b := \<not> dir_b r\<rparr>) (filter dir_b d) @
             map (\<lambda>r. r\<lparr>key := 0, dir_b := \<not> dir_b r\<rparr>) (filter (\<lambda>r. \<not> dir_b r) d)"
      unfolding c snd_conv by (rule swap_dir_b_rows)
    have 3: "map key (snd (cond_switch_a_b (cfg, d))) = map int [1..<Suc (length d)]"
      unfolding c snd_conv by (rule swap_dir_b_keys)
    have 4: "get_dir_entry_count False (snd (cond_switch_a_b (cfg, d))) = get_dir_entry_count True d"
      unfolding c snd_conv using swap_dir_b_counts[of False d] by simp
    have 5: "get_dir_entry_count True (snd (cond_switch_a_b (cfg, d))) = get_dir_entry_count False d"
      unfolding c snd_conv using swap_dir_b_counts[of True d] by simp
    show ?thesis
      unfolding if_P[OF H] by (intro conjI 1 2 rows 3 4 5)
  qed
qed

theorem cond_switch_a_b_when_a_larger_witness:
  "root_dir_b two_dir_config \<noteq> None
   \<and> get_dir_entry_count True
        [file_row 1 ''/a/x.jpg'' False (-1), file_row 2 ''/a/y.jpg'' False (-1),
         file_row 3 ''/b/z.jpg'' True (-1)]
     < get_dir_entry_count False
        [file_row 1 ''/a/x.jpg'' False (-1), file_row 2 ''/a/y.jpg'' False (-1),
         file_row 3 ''/b/z.jpg'' True (-1)]
   \<and> cond_switch_a_b (two_dir_config,
        [file_row 1 ''/a/x.jpg'' False (-1), file_row 2 ''/a/y.jpg'' False (-1),
         file_row 3 ''/b/z.jpg'' True (-1)])
     = (two_dir_config\<lparr>root_dir_a := ''/b'', root_dir_b := Some ''/a''\<rparr>,
        [file_row 1 ''/b/z.jpg'' False (-1), file_row 2 ''/a/x.jpg'' True (-1),
         file_row 3 ''/a/y.jpg'' True (-1)])
   \<and> get_dir_entry_count False (snd (cond_switch_a_b (two_dir_config,
        [file_row 1 ''/a/x.jpg'' False (-1), file_row 2 ''/a/y.jpg'' False (-1),
         file_row 3 ''/b/z.jpg'' True (-1)])))
     = get_dir_entry_count True
        [file_row 1 ''/a/x.jpg'' False (-1), file_row 2 ''/a/y.jpg'' False (-1),
         file_row 3 ''/b/z.jpg'' True (-1)]"
proof -
  let ?d = "[file_row 1 ''/a/x.jpg'' False (-1), file_row 2 ''/a/y.jpg'' False (-1),
         file_row 3 ''/b/z.jpg'' True (-1)]"
  have h1: "root_dir_b two_dir_config \<noteq> None"
    by (simp add: two_dir_config_def item_config_def)
  have h2: "get_dir_entry_count True ?d < get_dir_entry_count False ?d"
    by (simp add: get_dir_entry_count_def file_row_def)
  have H: "root_dir_b two_dir_config \<noteq> None
           \<and> get_dir_entry_count True ?d < get_dir_entry_count False ?d"
    using h1 h2 by (rule conjI)
  note t = cond_switch_a_b_when_a_larger[of two_dir_config ?d, unfolded if_P[OF H]]
  have e: "cond_switch_a_b (two_dir_config, ?d)
     = (two_dir_config\<lparr>root_dir_a := ''/b'', root_dir_b := Some ''/a''\<rparr>,
        [file_row 1 ''/b/z.jpg'' False (-1), file_row 2 ''/a/x.jpg'' True (-1),
         file_row 3 ''/a/y.jpg'' True (-1)])"
    by (simp add: cond_switch_a_b_def swap_dir_b_def autoincrement_def get_dir_entry_count_def
          file_row_def two_dir_config_def item_config_def)
  from h1 h2 e t[THEN conjunct2, THEN conjunct2, THEN conjunct2, THEN conjunct2, THEN conjunct1]
  show ?thesis by (intro conjI)
qed

text \<open>
  The claim's condition is the reverse of the code's. With one file in A and two in B,
  B holds more files and nothing is swapped; with two files in A and one in B, B holds no
  more files than A and the table is rebuilt.
\<close>

theorem cond_switch_a_b_counterexample:
  "get_dir_entry_count False
        [file_row 1 ''/a/x.jpg'' False (-1), file_row 2 ''/b/y.jpg'' True (-1),
         file_row 3 ''/b/z.jpg'' True (-1)]
     < get_dir_entry_count True
        [file_row 1 ''/a/x.jpg'' False (-1), file_row 2 ''/b/y.jpg'' True (-1),
         file_row 3 ''/b/z.jpg'' True (-1)]
   \<and> cond_switch_a_b (two_dir_config,
        [file_row 1 ''/a/x.jpg'' False (-1), file_row 2 ''/b/y.jpg'' True (-1),
         file_row 3 ''/b/z.jpg'' True (-1)])
     = (two_dir_config,
        [file_row 1 ''/a/x.jpg'' False (-1), file_row 2 ''/b/y.jpg'' True (-1),
         file_row 3 ''/b/z.jpg'' True (-1)])
   \<and> get_dir_entry_count True
        [file_row 1 ''/a/x.jpg'' False (-1), file_row 2 ''/a/y.jpg'' False (-1),
         file_row 3 ''/b/z.jpg'' True (-1)]
     \<le> get_dir_entry_count False
        [file_row 1 ''/a/x.jpg'' False (-1), file_row 2 ''/a/y.jpg'' False (-1),
         file_row 3 ''/b/z.jpg'' True (-1)]
   \<and> snd (cond_switch_a_b (two_dir_config,
        [file_row 1 ''/a/x.jpg'' False (-1), file_row 2 ''/a/y.jpg'' False (-1),
         file_row 3 ''/b/z.jpg'' True (-1)]))
     \<noteq> [file_row 1 ''/a/x.jpg'' False (-1), file_row 2 ''/a/y.jpg'' False (-1),
         file_row 3 ''/b/z.jpg'' True (-1)]"
  by (simp add: cond_switch_a_b_def swap_dir_b_def autoincrement_def get_dir_entry_count_def
        file_row_def two_dir_config_def item_config_def)

section \<open>Taking a batch of preprocessing arguments\<close>

lemma set_sql_limit: "set (sql_limit n xs) \<subseteq> set xs"
  by (auto simp: sql_limit_def dest: in_set_takeD)

lemma length_sql_limit: "0 \<le> n \<Longrightarrow> length (sql_limit n xs) \<le> nat n"
  by (simp add: sql_limit_def)

lemma key_in_keys:
  assumes "distinct (map key d)" "r \<in> set d" "set S \<subseteq> set d"
  shows "key r \<in> key ` set S \<longleftrightarrow> r \<in> set S"
proof
  assume "key r \<in> key ` set S"
  then obtain s where s: "s \<in> set S" "key s = key r" by auto
  with assms have "s = r"
    by (meson distinct_map inj_onD subsetD)
  with s show "r \<in> set S" by simp
qed simp

lemma batch_args_are_flipped_rows:
  assumes "distinct (map key d)"
  shows "set (fst (batch_of_preprocessing_args n d)) =
     {PreprocessArg (path (d ! i)) (key (d ! i)) | i. i < length d \<and> success (d ! i) = -1
        \<and> success (snd (batch_of_preprocessing_args n d) ! i) = -2}"
proof -
  define S where "S = sql_limit n (filter (\<lambda>r. success r = -1) d)"
  have sub: "set S \<subseteq> set d" and un: "\<And>r. r \<in> set S \<Longrightarrow> success r = -1"
    using set_sql_limit[of n "filter (\<lambda>r. success r = -1) d"] by (auto simp: S_def)
  have k: "\<And>r. r \<in> set d \<Longrightarrow> key r \<in> key ` set S \<longleftrightarrow> r \<in> set S"
    using key_in_keys[OF assms _ sub] by blast
  have "set (fst (batch_of_preprocessing_args n d)) = (\<lambda>r. PreprocessArg (path r) (key r)) ` set S"
    by (simp add: batch_of_preprocessing_args_def Let_def S_def)
  also have "\<dots> = {PreprocessArg (path (d ! i)) (key (d ! i)) | i. i < length d \<and> d ! i \<in> set S}"
  proof (intro set_eqI iffI)
    fix a assume "a \<in> (\<lambda>r. PreprocessArg (path r) (key r)) ` set S"
    then obtain x where x: "x \<in> set S" "a = PreprocessArg (path x) (key x)" by auto
    with sub have "x \<in> set d" by blast
    then obtain i where "i < length d" "d ! i = x" by (auto simp: in_set_conv_nth)
    with x show "a \<in> {PreprocessArg (path (d ! i)) (key (d ! i)) | i. i < length d \<and> d ! i \<in> set S}"
      by blast
  qed auto
  also have "\<dots> = {PreprocessArg (path (d ! i)) (key (d ! i)) | i. i < length d \<and> success (d ! i) = -1
        \<and> success (snd (batch_of_preprocessing_args n d) ! i) = -2}"
  proof -
    have "\<And>i. i < length d \<Longrightarrow>
        (success (d ! i) = -1 \<and> success (snd (batch_of_preprocessing_args n d) ! i) = -2)
         \<longleftrightarrow> d ! i \<in> set S"
      using k un by (simp add: batch_of_preprocessing_args_def Let_def S_def[symmetric])
    then show ?thesis by metis
  qed
  finally show ?thesis .
qed

lemma batch_changes_at_most_n_rows:
  assumes "distinct (map key d)" "0 \<le> n"
  shows "card {i. i < length d \<and> snd (batch_of_preprocessing_args n d) ! i \<noteq> d ! i} \<le> nat n"
proof -
  define S where "S = sql_limit n (filter (\<lambda>r. success r = -1) d)"
  have sub: "set S \<subseteq> set d"
    using set_sql_limit[of n "filter (\<lambda>r. success r = -1) d"] by (auto simp: S_def)
  have k: "\<And>r. r \<in> set d \<Longrightarrow> key r \<in> key ` set S \<longleftrightarrow> r \<in> set S"
    using key_in_keys[OF assms(1) _ sub] by blast
  have dd: "distinct d" using assms(1) by (simp add: distinct_map)
  have "{i. i < length d \<and> snd (batch_of_preprocessing_args n d) ! i \<noteq> d ! i}
        \<subseteq> {i. i < length d \<and> d ! i \<in> set S}"
    using k by (auto simp: batch_of_preprocessing_args_def Let_def S_def[symmetric] split: if_splits)
  then have "card {i. i < length d \<and> snd (batch_of_preprocessing_args n d) ! i \<noteq> d ! i}
        \<le> card {i. i < length d \<and> d ! i \<in> set S}"
    by (intro card_mono) auto
  also have "inj_on (\<lambda>i. d ! i) {i. i < length d \<and> d ! i \<in> set S}"
    using dd by (auto simp: inj_on_def nth_eq_iff_index_eq)
  then have "card {i. i < length d \<and> d ! i \<in> set S}
             = card ((\<lambda>i. d ! i) ` {i. i < length d \<and> d ! i \<in> set S})"
    by (simp add: card_image)
  also have "\<dots> \<le> card (set S)"
    by (intro card_mono) auto
  also have "\<dots> \<le> length S" by (rule card_length)
  also have "\<dots> \<le> nat n" unfolding S_def using length_sql_limit[OF assms(2)] .
  finally show ?thesis .
qed

lemma successive_batches_disjoint:
  "set (fst (batch_of_preprocessing_args m (snd (batch_of_preprocessing_args n d))))
         \<inter> set (fst (batch_of_preprocessing_args n d)) = {}"
proof -
  define S where "S = sql_limit n (filter (\<lambda>r. success r = -1) d)"
  define d' where "d' = snd (batch_of_preprocessing_args n d)"
  define S' where "S' = sql_limit m (filter (\<lambda>r. success r = -1) d')"
  have d': "d' = map (\<lambda>r. if key r \<in> key ` set S then r\<lparr>success := -2\<rparr> else r) d"
    by (simp add: d'_def batch_of_preprocessing_args_def Let_def S_def)
  have "set S' \<subseteq> {r \<in> set d'. success r = -1}"
    using set_sql_limit[of m "filter (\<lambda>r. success r = -1) d'"] by (auto simp: S'_def)
  then have "\<And>r. r \<in> set S' \<Longrightarrow> key r \<notin> key ` set S"
    unfolding d' by (auto split: if_splits)
  moreover have "set (fst (batch_of_preprocessing_args m d'))
                 = (\<lambda>r. PreprocessArg (path r) (key r)) ` set S'"
    by (simp add: batch_of_preprocessing_args_def Let_def S'_def)
  moreover have "set (fst (batch_of_preprocessing_args n d))
                 = (\<lambda>r. PreprocessArg (path r) (key r)) ` set S"
    by (simp add: batch_of_preprocessing_args_def Let_def S_def)
  ultimately show ?thesis unfolding d'_def[symmetric] by auto
qed

text \<open>
  Claim C8. In a directory table whose keys are distinct (the key is the primary key),
  for every batch size \<open>n\<close>: the arguments \<^const>\<open>batch_of_preprocessing_args\<close> returns are
  exactly the key and path of the rows whose \<^verbatim>\<open>success\<close> it turns from -1 into -2; the table
  keeps its length and, for a batch size that is not negative, at most \<open>n\<close> of its rows
  change; and a second call, of any batch size, on the table the first call left returns
  none of the arguments of the first.
\<close>

theorem batch_of_preprocessing_args_exact:
  assumes "distinct (map key d)"
  shows "set (fst (batch_of_preprocessing_args n d)) =
           {PreprocessArg (path (d ! i)) (key (d ! i)) | i.
              i < length d \<and> success (d ! i) = -1
              \<and> success (snd (batch_of_preprocessing_args n d) ! i) = -2}
         \<and> length (snd (batch_of_preprocessing_args n d)) = length d
         \<and> (0 \<le> n \<longrightarrow>
              card {i. i < length d \<and> snd (batch_of_preprocessing_args n d) ! i \<noteq> d ! i} \<le> nat n)
         \<and> set (fst (batch_of_preprocessing_args m (snd (batch_of_preprocessing_args n d))))
             \<inter> set (fst (batch_of_preprocessing_args n d)) = {}"
proof (intro conjI impI)
  show "length (snd (batch_of_preprocessing_args n d)) = length d"
    by (simp add: batch_of_preprocessing_args_def Let_def)
next
  show "set (fst (batch_of_preprocessing_args n d)) =
           {PreprocessArg (path (d ! i)) (key (d ! i)) | i.
              i < length d \<and> success (d ! i) = -1
              \<and> success (snd (batch_of_preprocessing_args n d) ! i) = -2}"
    by (rule batch_args_are_flipped_rows[OF assms])
next
  assume "0 \<le> n"
  then show "card {i. i < length d \<and> snd (batch_of_preprocessing_args n d) ! i \<noteq> d ! i} \<le> nat n"
    by (rule batch_changes_at_most_n_rows[OF assms])
next
  show "set (fst (batch_of_preprocessing_args m (snd (batch_of_preprocessing_args n d))))
             \<inter> set (fst (batch_of_preprocessing_args n d)) = {}"
    by (rule successive_batches_disjoint)
qed

theorem batch_of_preprocessing_args_exact_witness:
  "distinct (map key three_files)
   \<and> fst (batch_of_preprocessing_args 1 three_files) = [PreprocessArg ''x.jpg'' 0]
   \<and> set (fst (batch_of_preprocessing_args 1 three_files)) =
           {PreprocessArg (path (three_files ! i)) (key (three_files ! i)) | i.
              i < length three_files \<and> success (three_files ! i) = -1
              \<and> success (snd (batch_of_preprocessing_args 1 three_files) ! i) = -2}
   \<and> card {i. i < length three_files
              \<and> snd (batch_of_preprocessing_args 1 three_files) ! i \<noteq> three_files ! i} \<le> nat 1
   \<and> set (fst (batch_of_preprocessing_args 5 (snd (batch_of_preprocessing_args 1 three_files))))
             \<inter> set (fst (batch_of_preprocessing_args 1 three_files)) = {}"
proof -
  have h: "distinct (map key three_files)"
    by (simp add: three_files_def file_row_def)
  have e: "fst (batch_of_preprocessing_args 1 three_files) = [PreprocessArg ''x.jpg'' 0]"
    by (simp add: batch_of_preprocessing_args_def sql_limit_def three_files_def file_row_def)
  have n: "(0::int) \<le> 1" by simp
  note t = batch_of_preprocessing_args_exact[OF h, of 1 5]
  show ?thesis
    using h e t[THEN conjunct1] t[THEN conjunct2, THEN conjunct2, THEN conjunct1, rule_format, OF n]
      t[THEN conjunct2, THEN conjunct2, THEN conjunct2]
    by (intro conjI)
qed

section \<open>Storing the results of the first loop\<close>

text \<open>
  Claim C7 does not hold of the code. \<^const>\<open>store_batch_first_loop\<close> puts the four hash
  fields of every result into the hash table, of a failed result too. For a failed
  result, whose hashes are not set, four rows without a hash are inserted and the lookup
  of \<^verbatim>\<open>None\<close> fails the assertion of \<^const>\<open>get_bulk_hash_lookup\<close>: the batch is not stored. Had
  the failed result carried hashes, the counts would add up to 4 with no file of
  \<^verbatim>\<open>success = 1\<close>.
\<close>

theorem store_batch_first_loop_failed_result:
  "store_batch_first_loop (\<lambda>s. s) True [failed_result]
        (([], 0), [file_row 0 ''/a/x.jpg'' False (-2)])
     = Inl AssertionError
   \<and> bulk_insert_hashes [None, None, None, None] ([], 0)
     = ([\<lparr>hash_key = 1, hash_text = None, hash_count = 1\<rparr>,
         \<lparr>hash_key = 2, hash_text = None, hash_count = 1\<rparr>,
         \<lparr>hash_key = 3, hash_text = None, hash_count = 1\<rparr>,
         \<lparr>hash_key = 4, hash_text = None, hash_count = 1\<rparr>], 4)
   \<and> store_batch_first_loop (\<lambda>s. s) True
        [failed_result\<lparr>res_hash_0 := Some ''h'', res_hash_90 := Some ''h'',
                       res_hash_180 := Some ''h'', res_hash_270 := Some ''h''\<rparr>]
        (([], 0), [file_row 0 ''/a/x.jpg'' False (-2)])
     = Inr (([\<lparr>hash_key = 1, hash_text = Some ''h'', hash_count = 4\<rparr>], 4),
            [(file_row 0 ''/a/x.jpg'' False 0)\<lparr>error := Some ''cannot identify image file''\<rparr>])"
  by (simp add: store_batch_first_loop_def bulk_insert_hashes_def upsert_hash_def
        batch_of_first_loop_results_def update_err_def update_success_def lookup_hash_def
        failed_result_def file_row_def)

section \<open>Prepopulating the dif table\<close>

lemma prepopulate_keys:
  "map (\<lambda>r. (key_a r, key_b r)) (prepopulate_diff_table block_size has_dir_b d)
     = candidate_pairs has_dir_b d"
proof -
  have "map (\<lambda>r. (key_a r, key_b r)) (insert_pairs ps) = map snd (autoincrement ps)" for ps
    by (simp add: insert_pairs_def split_def comp_def)
  then have "map (\<lambda>r. (key_a r, key_b r)) (insert_pairs ps) = ps" for ps
    by (simp only: map_snd_autoincrement)
  then show ?thesis
    by (simp add: prepopulate_diff_table_def Let_def set_block_keys_def set_blocks_def comp_def)
qed

lemma length_prepopulate:
  "length (prepopulate_diff_table block_size has_dir_b d)
     = length (filter (\<lambda>(a, b). if has_dir_b then \<not> dir_b a \<and> dir_b b else key a < key b)
                 (List.product d d))"
proof -
  have "length (prepopulate_diff_table block_size has_dir_b d)
          = length (map (\<lambda>r. (key_a r, key_b r)) (prepopulate_diff_table block_size has_dir_b d))"
    by simp
  also have "\<dots> = length (candidate_pairs has_dir_b d)" by (simp only: prepopulate_keys)
  finally show ?thesis by (simp add: candidate_pairs_def)
qed

lemma filter_product:
  "filter (\<lambda>(a, b). P a \<and> Q b) (List.product xs ys) = List.product (filter P xs) (filter Q ys)"
proof (induction xs)
  case (Cons x xs)
  have "filter (\<lambda>(a, b). P a \<and> Q b) (map (Pair x) ys)
          = (if P x then map (Pair x) (filter Q ys) else [])"
    by (induction ys) auto
  with Cons show ?case by simp
qed simp

lemma count_product_snoc:
  "length (filter P (List.product xs (y # ys)))
     = length (filter (\<lambda>a. P (a, y)) xs) + length (filter P (List.product xs ys))"
  by (induction xs) auto

lemma count_ordered_pairs:
  "distinct (map key d) \<Longrightarrow>
     2 * length (filter (\<lambda>(a, b). key a < key b) (List.product d d)) = length d * (length d - 1)"
proof (induction d)
  case Nil
  then show ?case by simp
next
  case (Cons x xs)
  have "key x \<notin> key ` set xs" using Cons.prems by simp
  then have ne: "\<forall>a \<in> set xs. key a \<noteq> key x" by (metis imageI)
  have "length (filter (\<lambda>(a, b). key a < key b) (map (Pair x) (x # xs)))
         = length (filter (\<lambda>b. key x < key b) xs)"
    by (simp add: filter_map comp_def)
  moreover have "filter (\<lambda>a. \<not> key x < key a) xs = filter (\<lambda>a. key a < key x) xs"
    using ne by (intro filter_cong) auto
  then have "length (filter (\<lambda>b. key x < key b) xs) + length (filter (\<lambda>a. key a < key x) xs)
          = length xs"
    using sum_length_filter_compl[of "\<lambda>b. key x < key b" xs] by simp
  moreover have "2 * length (filter (\<lambda>(a, b). key a < key b) (List.product xs xs))
          = length xs * (length xs - 1)"
    using Cons by simp
  moreover have "length xs * (length xs - 1) + 2 * length xs = (length xs + 1) * length xs"
    by (cases "length xs") auto
  ultimately show ?case
    by (simp add: count_product_snoc)
qed

text \<open>
  Claim C2, as the code has it. Pair generation ranges over every file entry, whatever
  its state of preprocessing: for two partitions, \<^const>\<open>prepopulate_diff_table\<close> inserts one
  row per pair of an entry of A and an entry of B, and for one partition whose \<open>n\<close>
  entries have distinct keys (the key is the primary key) it inserts \<open>n (n - 1) / 2\<close> rows.
\<close>

theorem prepopulate_diff_table_count:
  "length (prepopulate_diff_table block_size True d)
     = length (filter (\<lambda>r. \<not> dir_b r) d) * length (filter dir_b d)
   \<and> (distinct (map key d) \<longrightarrow>
        length (prepopulate_diff_table block_size False d) = length d * (length d - 1) div 2)"
proof (intro conjI impI)
  show "length (prepopulate_diff_table block_size True d)
     = length (filter (\<lambda>r. \<not> dir_b r) d) * length (filter dir_b d)"
    by (simp add: length_prepopulate filter_product)
next
  assume "distinct (map key d)"
  from count_ordered_pairs[OF this] show
    "length (prepopulate_diff_table block_size False d) = length d * (length d - 1) div 2"
    by (simp add: length_prepopulate)
qed

theorem prepopulate_diff_table_count_witness:
  "distinct (map key three_files)
   \<and> length (prepopulate_diff_table 2 False three_files) = 3
   \<and> length three_files * (length three_files - 1) div 2 = 3"
proof -
  have h: "distinct (map key three_files)" by (simp add: three_files_def file_row_def)
  have n: "length three_files * (length three_files - 1) div 2 = 3"
    by (simp add: three_files_def)
  from prepopulate_diff_table_count[of 2 three_files, THEN conjunct2, rule_format, OF h] n h
  show ?thesis by simp
qed

text \<open>
  The claim fails on a catalog with a file that failed preprocessing: of the two files
  one is OK and one is in error, and the pair of them is inserted, in both modes.
\<close>

theorem prepopulate_diff_table_count_counterexample:
  "length (filter (\<lambda>r. success r = 1) [file_row 0 ''x.jpg'' False 1, file_row 1 ''y.jpg'' False 0]) = 1
   \<and> length (prepopulate_diff_table 2 False
               [file_row 0 ''x.jpg'' False 1, file_row 1 ''y.jpg'' False 0]) = 1
   \<and> (1::nat) * (1 - 1) div 2 = 0
   \<and> length (filter (\<lambda>r. success r = 1 \<and> dir_b r)
               [file_row 0 ''x.jpg'' False 1, file_row 1 ''y.jpg'' True 0]) = 0
   \<and> length (prepopulate_diff_table 2 True
               [file_row 0 ''x.jpg'' False 1, file_row 1 ''y.jpg'' True 0]) = 1"
  by (simp add: length_prepopulate file_row_def)

section \<open>Blocks and block keys\<close>

lemma rank_in_sorted:
  fixes f :: "'a \<Rightarrow> 'b::linorder"
  assumes "sorted (map f S)" "distinct (map f S)" "i < length S"
  shows "card {y \<in> set S. f y < f (S ! i)} = i"
proof -
  have dS: "distinct S" using assms(2) by (simp add: distinct_map)
  have "{y \<in> set S. f y < f (S ! i)} = set (take i S)"
  proof (intro set_eqI iffI)
    fix y assume "y \<in> {y \<in> set S. f y < f (S ! i)}"
    then obtain j where j: "j < length S" "S ! j = y" "f y < f (S ! i)"
      by (auto simp: in_set_conv_nth)
    have "j < i"
    proof (rule ccontr)
      assume "\<not> j < i"
      then have "i \<le> j" by simp
      with assms(1) j(1) have "map f S ! i \<le> map f S ! j"
        by (intro sorted_nth_mono) auto
      with j assms(3) show False by simp
    qed
    with j show "y \<in> set (take i S)"
      by (auto simp: in_set_conv_nth intro!: exI[of _ j])
  next
    fix y assume "y \<in> set (take i S)"
    then obtain j where j: "j < i" "S ! j = y" using assms(3)
      by (auto simp: in_set_conv_nth)
    with assms(1,3) have "map f S ! j \<le> map f S ! i"
      by (intro sorted_nth_mono) auto
    moreover have "map f S ! j \<noteq> map f S ! i"
      using assms(2,3) j(1) by (simp add: nth_eq_iff_index_eq del: nth_map)
    ultimately have "f y < f (S ! i)" using j assms(3) by simp
    with j assms(3) show "y \<in> {y \<in> set S. f y < f (S ! i)}" by auto
  qed
  moreover have "card (set (take i S)) = i"
    using dS assms(3) by (simp add: distinct_card)
  ultimately show ?thesis by simp
qed

lemma find_autoincrement:
  assumes "distinct S" "i < length S"
  shows "find (\<lambda>(k, p). p = S ! i) (autoincrement S) = Some (1 + int i, S ! i)"
proof -
  have "find (\<lambda>(k, p). p = S ! i) (map (\<lambda>(j, x). (int j, x)) (enumerate n S))
          = Some (int n + int i, S ! i)" for n
    using assms
  proof (induction S arbitrary: i n)
    case Nil
    then show ?case by simp
  next
    case (Cons x S)
    show ?case
    proof (cases i)
      case 0
      then show ?thesis by simp
    next
      case (Suc j)
      with Cons.prems have "x \<noteq> S ! j" "j < length S" "distinct S" by auto
      with Cons.IH[of j "Suc n"] Suc show ?thesis by simp
    qed
  qed
  from this[of 1] show ?thesis by (simp add: autoincrement_def)
qed


lemma block_order_less:
  "block_order h (Some a, Some b) < block_order h (Some a', Some b')
     \<longleftrightarrow> (if h then row_major_before else diagonal_before) (a, b) (a', b')"
  by (auto simp: block_order_def sql_sub_def sql_add_def less_prod_def
        row_major_before_def diagonal_before_def)

lemma block_order_inj:
  "block_order h (Some a, Some b) = block_order h (Some a', Some b') \<Longrightarrow> a = a' \<and> b = b'"
  by (auto simp: block_order_def sql_sub_def sql_add_def split: if_splits)

lemma sql_div_Some: "B \<noteq> 0 \<Longrightarrow> sql_div (Some a) (Some B) = Some (a sdiv B)"
  by (simp add: sql_div_def)

lemma get_b_offset_Min:
  assumes "filter dir_b d \<noteq> []"
  shows "get_b_offset d = Some (Min (key ` {f \<in> set d. dir_b f}))"
proof -
  obtain x xs where x: "map key (filter dir_b d) = x # xs"
    using assms by (cases "filter dir_b d") auto
  have "key ` {f \<in> set d. dir_b f} = set (map key (filter dir_b d))" by auto
  also have "\<dots> = set (x # xs)" by (simp only: x)
  finally have "Min (key ` {f \<in> set d. dir_b f}) = fold min xs x"
    by (simp only: Min.set_eq_fold)
  then show ?thesis by (simp add: get_b_offset_def sql_min_def x)
qed

lemma product_Nil_right: "List.product xs [] = []"
  by (induction xs) auto

lemma candidate_pairs_has_b:
  assumes "candidate_pairs True d \<noteq> []"
  shows "filter dir_b d \<noteq> []"
proof
  assume e: "filter dir_b d = []"
  have "filter (\<lambda>(a, b). \<not> dir_b a \<and> dir_b b) (List.product d d) = []"
    unfolding filter_product e by (rule product_Nil_right)
  then have "candidate_pairs True d = []" by (simp add: candidate_pairs_def)
  with assms show False by simp
qed

lemma set_blocks_rows:
  assumes "block_size \<noteq> 0" and "r \<in> set (set_blocks block_size h d t)"
    and "h \<Longrightarrow> get_b_offset d = Some m"
  shows "block_a r = Some (key_a r sdiv block_size)
       \<and> block_b r = Some ((if h then key_b r - m else key_b r) sdiv block_size)"
proof -
  from assms(2) obtain r0 where r0: "r0 \<in> set t"
    "r = r0\<lparr>block_a := sql_div (Some (key_a r0)) (Some block_size),
            block_b := (if h
                        then sql_div (sql_sub (Some (key_b r0)) (get_b_offset d)) (Some block_size)
                        else sql_div (Some (key_b r0)) (Some block_size))\<rparr>"
    by (auto simp: set_blocks_def)
  show ?thesis
  proof (cases h)
    case True
    with assms(3) have "get_b_offset d = Some m" by simp
    with True assms(1) show ?thesis by (simp add: r0(2) sql_div_Some sql_sub_def)
  next
    case False
    with assms(1) show ?thesis by (simp add: r0(2) sql_div_Some)
  qed
qed


lemma block_pairs_iff:
  "(a, b) \<in> block_pairs t \<longleftrightarrow> (\<exists>r \<in> set t. block_a r = Some a \<and> block_b r = Some b)"
proof
  assume "(a, b) \<in> block_pairs t"
  then show "\<exists>r \<in> set t. block_a r = Some a \<and> block_b r = Some b"
    by (auto simp: block_pairs_def split: option.splits)
next
  assume "\<exists>r \<in> set t. block_a r = Some a \<and> block_b r = Some b"
  then obtain r where "r \<in> set t" "block_a r = Some a" "block_b r = Some b" by blast
  then show "(a, b) \<in> block_pairs t"
    by (auto simp: block_pairs_def intro!: bexI[of _ r])
qed

lemma set_block_keys_rows:
  assumes "r \<in> set (set_block_keys temp t)"
  shows "\<exists>r1 \<in> set t. block_a r = block_a r1 \<and> block_b r = block_b r1
           \<and> key_a r = key_a r1 \<and> key_b r = key_b r1
           \<and> block_key r = map_option fst
                 (find (\<lambda>(k, a, b). a \<noteq> None \<and> a = block_a r1 \<and> b \<noteq> None \<and> b = block_b r1) temp)"
  using assms by (auto simp: set_block_keys_def)

lemma set_block_keys_blocks:
  "(\<lambda>r. (block_a r, block_b r)) ` set (set_block_keys temp t)
     = (\<lambda>r. (block_a r, block_b r)) ` set t"
proof -
  have "map (\<lambda>r. (block_a r, block_b r)) (set_block_keys temp t)
          = map (\<lambda>r. (block_a r, block_b r)) t"
    by (simp add: set_block_keys_def comp_def)
  then have "set (map (\<lambda>r. (block_a r, block_b r)) (set_block_keys temp t))
          = set (map (\<lambda>r. (block_a r, block_b r)) t)" by (rule arg_cong)
  then show ?thesis by (simp only: set_map)
qed

lemma set_blocks_keys:
  "r \<in> set (set_blocks block_size h d t) \<Longrightarrow> \<exists>r0 \<in> set t. key_a r = key_a r0 \<and> key_b r = key_b r0"
  by (auto simp: set_blocks_def)


lemma block_key_is_rank:
  assumes some: "\<forall>p \<in> set xs. \<exists>a b. p = (Some a, Some b)"
    and mem: "(Some a, Some b) \<in> set xs"
  shows "map_option fst
           (find (\<lambda>(k, a', b'). a' \<noteq> None \<and> a' = Some a \<and> b' \<noteq> None \<and> b' = Some b)
              (autoincrement (sort_key (block_order h) (remdups xs))))
         = Some (dense_rank (if h then row_major_before else diagonal_before)
                   {(a', b'). (Some a', Some b') \<in> set xs} (a, b))"
proof -
  define S where "S = sort_key (block_order h) (remdups xs)"
  define g :: "int \<times> int \<Rightarrow> int option \<times> int option" where "g = (\<lambda>(a, b). (Some a, Some b))"
  have setS: "set S = set xs" by (simp add: S_def)
  have dS: "distinct S" by (simp add: S_def)
  have sorted: "sorted (map (block_order h) S)" by (simp add: S_def)
  have pS: "\<forall>p \<in> set S. \<exists>a b. p = (Some a, Some b)" unfolding setS by (rule some)
  have inj: "inj_on (block_order h) (set S)"
  proof (rule inj_onI)
    fix p q assume p: "p \<in> set S" and q: "q \<in> set S"
      and e: "block_order h p = block_order h q"
    from pS p obtain a1 b1 where 1: "p = (Some a1, Some b1)" by blast
    from pS q obtain a2 b2 where 2: "q = (Some a2, Some b2)" by blast
    from block_order_inj[of h a1 b1 a2 b2] e show "p = q" unfolding 1 2 by simp
  qed
  with dS have dm: "distinct (map (block_order h) S)" by (simp add: distinct_map)
  have "(Some a, Some b) \<in> set S" unfolding setS by (rule mem)
  then obtain i where i: "i < length S" "S ! i = (Some a, Some b)"
    by (meson in_set_conv_nth)
  have pred: "(\<lambda>(k, a', b'). a' \<noteq> None \<and> a' = Some a \<and> b' \<noteq> None \<and> b' = Some b)
                = (\<lambda>(k, p). p = S ! i)"
    by (auto simp: i(2) fun_eq_iff)
  have f: "find (\<lambda>(k, a', b'). a' \<noteq> None \<and> a' = Some a \<and> b' \<noteq> None \<and> b' = Some b)
              (autoincrement S) = Some (1 + int i, S ! i)"
    unfolding pred by (rule find_autoincrement[OF dS i(1)])
  have rank: "card {y \<in> set S. block_order h y < block_order h (S ! i)} = i"
    by (rule rank_in_sorted[OF sorted dm i(1)])
  have img: "{y \<in> set S. block_order h y < block_order h (S ! i)}
       = g ` {p \<in> {(a', b'). (Some a', Some b') \<in> set xs}.
                (if h then row_major_before else diagonal_before) p (a, b)}"
  proof (intro set_eqI iffI)
    fix y assume y: "y \<in> {y \<in> set S. block_order h y < block_order h (S ! i)}"
    then have "y \<in> set S" by simp
    with pS obtain a1 b1 where ab: "y = (Some a1, Some b1)" by blast
    with y have "(Some a1, Some b1) \<in> set xs"
      and "block_order h (Some a1, Some b1) < block_order h (Some a, Some b)"
      using setS i(2) by auto
    then have "(a1, b1) \<in> {p \<in> {(a', b'). (Some a', Some b') \<in> set xs}.
                (if h then row_major_before else diagonal_before) p (a, b)}"
      by (simp add: block_order_less)
    then show "y \<in> g ` {p \<in> {(a', b'). (Some a', Some b') \<in> set xs}.
                (if h then row_major_before else diagonal_before) p (a, b)}"
      unfolding ab by (rule image_eqI[rotated]) (simp add: g_def)
  next
    fix y assume "y \<in> g ` {p \<in> {(a', b'). (Some a', Some b') \<in> set xs}.
                (if h then row_major_before else diagonal_before) p (a, b)}"
    then obtain a1 b1 where ab: "y = (Some a1, Some b1)" "(Some a1, Some b1) \<in> set xs"
       "(if h then row_major_before else diagonal_before) (a1, b1) (a, b)"
      by (auto simp: g_def)
    then show "y \<in> {y \<in> set S. block_order h y < block_order h (S ! i)}"
      using setS i(2) by (simp add: block_order_less)
  qed
  have "inj g" by (auto simp: inj_on_def g_def)
  then have "card (g ` {p \<in> {(a', b'). (Some a', Some b') \<in> set xs}.
                (if h then row_major_before else diagonal_before) p (a, b)})
        = card {p \<in> {(a', b'). (Some a', Some b') \<in> set xs}.
                (if h then row_major_before else diagonal_before) p (a, b)}"
    by (intro card_image) (auto simp: inj_on_def)
  with rank img have "int i = int (card {p \<in> {(a', b'). (Some a', Some b') \<in> set xs}.
                (if h then row_major_before else diagonal_before) p (a, b)})"
    by simp
  then show ?thesis
    unfolding S_def[symmetric] f dense_rank_def by simp
qed


text \<open>
  Claim C3. For a block size that is not zero and every row of the table that
  \<^const>\<open>prepopulate_diff_table\<close> fills: \<^verbatim>\<open>block_a\<close> is \<^verbatim>\<open>key_a\<close> divided by the block size, and
  \<^verbatim>\<open>block_b\<close> is \<^verbatim>\<open>key_b\<close>, less the smallest key of partition B when there are two
  partitions, divided by the block size (SQLite's integer division, which truncates and is
  \<open>div\<close> on the keys of the catalog, none of them negative); and \<^verbatim>\<open>block_key\<close> is the dense
  rank, counted from 1, of the row's pair of blocks among the distinct pairs of blocks of
  the table, in row-major order for two partitions and in diagonal-major order for one.
\<close>

theorem prepopulate_diff_table_blocks:
  assumes "block_size \<noteq> 0"
    and "r \<in> set (prepopulate_diff_table block_size has_dir_b d)"
  shows "block_a r = Some (key_a r sdiv block_size)
       \<and> block_b r = Some ((if has_dir_b then key_b r - Min (key ` {f \<in> set d. dir_b f})
                             else key_b r) sdiv block_size)
       \<and> block_key r =
           Some (dense_rank (if has_dir_b then row_major_before else diagonal_before)
                   (block_pairs (prepopulate_diff_table block_size has_dir_b d))
                   (key_a r sdiv block_size,
                    (if has_dir_b then key_b r - Min (key ` {f \<in> set d. dir_b f})
                     else key_b r) sdiv block_size))"
proof -
  define m where "m = Min (key ` {f \<in> set d. dir_b f})"
  define t0 where "t0 = insert_pairs (candidate_pairs has_dir_b d)"
  define t1 where "t1 = set_blocks block_size has_dir_b d t0"
  define xs where "xs = map (\<lambda>r. (block_a r, block_b r)) t1"
  define R where "R = prepopulate_diff_table block_size has_dir_b d"
  have R: "R = set_block_keys (autoincrement (sort_key (block_order has_dir_b) (remdups xs))) t1"
    by (simp add: R_def prepopulate_diff_table_def Let_def block_key_temp_def t1_def t0_def xs_def)
  from assms(2) have rR: "r \<in> set R" by (simp add: R_def)
  from set_block_keys_rows[OF rR[unfolded R]] obtain r1 where r1: "r1 \<in> set t1"
    "block_a r = block_a r1" "block_b r = block_b r1" "key_a r = key_a r1" "key_b r = key_b r1"
    "block_key r = map_option fst
       (find (\<lambda>(k, a, b). a \<noteq> None \<and> a = block_a r1 \<and> b \<noteq> None \<and> b = block_b r1)
          (autoincrement (sort_key (block_order has_dir_b) (remdups xs))))"
    by blast
  have off: "get_b_offset d = Some m" if "has_dir_b"
  proof -
    from r1(1) have "t0 \<noteq> []" by (auto simp: t1_def set_blocks_def)
    then have "candidate_pairs has_dir_b d \<noteq> []"
      by (auto simp: t0_def insert_pairs_def autoincrement_def)
    with that have "filter dir_b d \<noteq> []" by (intro candidate_pairs_has_b) simp
    then show ?thesis unfolding m_def by (rule get_b_offset_Min)
  qed
  have rows: "block_a x = Some (key_a x sdiv block_size)
       \<and> block_b x = Some ((if has_dir_b then key_b x - m else key_b x) sdiv block_size)"
    if "x \<in> set t1" for x
    using set_blocks_rows[OF assms(1) that[unfolded t1_def] off] by simp
  define a where "a = key_a r sdiv block_size"
  define b where "b = (if has_dir_b then key_b r - m else key_b r) sdiv block_size"
  have ra: "block_a r1 = Some a" and rb: "block_b r1 = Some b"
    using rows[OF r1(1)] r1(4,5) by (simp_all add: a_def b_def)
  have some: "\<forall>p \<in> set xs. \<exists>a b. p = (Some a, Some b)"
    unfolding xs_def using rows by auto
  have mem: "(Some a, Some b) \<in> set xs"
    unfolding xs_def using r1(1) ra rb by force
  have bp: "block_pairs R = {(a', b'). (Some a', Some b') \<in> set xs}"
  proof -
    have img: "(\<lambda>r. (block_a r, block_b r)) ` set R = set xs"
      unfolding R xs_def by (simp only: set_block_keys_blocks set_map)
    have "(\<exists>r \<in> set R. block_a r = Some a' \<and> block_b r = Some b')
                 \<longleftrightarrow> (Some a', Some b') \<in> (\<lambda>r. (block_a r, block_b r)) ` set R" for a' b'
      by force
    then show ?thesis unfolding img by (auto simp: block_pairs_iff)
  qed
  have "block_key r = Some (dense_rank (if has_dir_b then row_major_before else diagonal_before)
                   (block_pairs R) (a, b))"
    unfolding r1(6) ra rb bp by (rule block_key_is_rank[OF some mem])
  with ra rb r1(2,3) show ?thesis
    unfolding R_def a_def b_def m_def by simp
qed


lemma min_key_b_two_by_two: "Min (key ` {f \<in> set two_by_two. dir_b f}) = 2"
proof -
  have "{f \<in> set two_by_two. dir_b f} = set (filter dir_b two_by_two)" by auto
  also have "filter dir_b two_by_two = [file_row 2 ''/b/x.jpg'' True 1, file_row 3 ''/b/y.jpg'' True 1]"
    by (simp add: two_by_two_def file_row_def)
  finally show ?thesis by (simp add: file_row_def)
qed

theorem prepopulate_diff_table_blocks_witness:
  "(2::int) \<noteq> 0
   \<and> \<lparr>dif_key = 2, key_a = 0, key_b = 2, dif = -1, dif_success = -1,
       block_a = Some 0, block_b = Some 1, block_key = Some 2\<rparr>
       \<in> set (prepopulate_diff_table 2 False three_files)
   \<and> dense_rank diagonal_before (block_pairs (prepopulate_diff_table 2 False three_files)) (0, 1) = 2
   \<and> (1::int) \<noteq> 0
   \<and> \<lparr>dif_key = 3, key_a = 1, key_b = 2, dif = -1, dif_success = -1,
       block_a = Some 1, block_b = Some 0, block_key = Some 3\<rparr>
       \<in> set (prepopulate_diff_table 1 True two_by_two)
   \<and> dense_rank row_major_before (block_pairs (prepopulate_diff_table 1 True two_by_two)) (1, 0) = 3"
proof -
  have e1: "prepopulate_diff_table 2 False three_files =
   [\<lparr>dif_key = 1, key_a = 0, key_b = 1, dif = -1, dif_success = -1,
      block_a = Some 0, block_b = Some 0, block_key = Some 1\<rparr>,
    \<lparr>dif_key = 2, key_a = 0, key_b = 2, dif = -1, dif_success = -1,
      block_a = Some 0, block_b = Some 1, block_key = Some 2\<rparr>,
    \<lparr>dif_key = 3, key_a = 1, key_b = 2, dif = -1, dif_success = -1,
      block_a = Some 0, block_b = Some 1, block_key = Some 2\<rparr>]"
    by code_simp
  have e2: "prepopulate_diff_table 1 True two_by_two =
   [\<lparr>dif_key = 1, key_a = 0, key_b = 2, dif = -1, dif_success = -1,
      block_a = Some 0, block_b = Some 0, block_key = Some 1\<rparr>,
    \<lparr>dif_key = 2, key_a = 0, key_b = 3, dif = -1, dif_success = -1,
      block_a = Some 0, block_b = Some 1, block_key = Some 2\<rparr>,
    \<lparr>dif_key = 3, key_a = 1, key_b = 2, dif = -1, dif_success = -1,
      block_a = Some 1, block_b = Some 0, block_key = Some 3\<rparr>,
    \<lparr>dif_key = 4, key_a = 1, key_b = 3, dif = -1, dif_success = -1,
      block_a = Some 1, block_b = Some 1, block_key = Some 4\<rparr>]"
    by code_simp
  have n1: "(2::int) \<noteq> 0" and n2: "(1::int) \<noteq> 0" by simp_all
  have m1: "\<lparr>dif_key = 2, key_a = 0, key_b = 2, dif = -1, dif_success = -1,
       block_a = Some 0, block_b = Some 1, block_key = Some 2\<rparr>
       \<in> set (prepopulate_diff_table 2 False three_files)"
    unfolding e1 by simp
  have m2: "\<lparr>dif_key = 3, key_a = 1, key_b = 2, dif = -1, dif_success = -1,
       block_a = Some 1, block_b = Some 0, block_key = Some 3\<rparr>
       \<in> set (prepopulate_diff_table 1 True two_by_two)"
    unfolding e2 by simp
  have r1: "dense_rank diagonal_before (block_pairs (prepopulate_diff_table 2 False three_files)) (0, 1) = 2"
    using prepopulate_diff_table_blocks[OF n1 m1, THEN conjunct2, THEN conjunct2]
    by (simp add: signed_divide_int_def)
  have r2: "dense_rank row_major_before (block_pairs (prepopulate_diff_table 1 True two_by_two)) (1, 0) = 3"
    using prepopulate_diff_table_blocks[OF n2 m2, THEN conjunct2, THEN conjunct2]
    by (simp add: min_key_b_two_by_two)
  from n1 m1 r1 n2 m2 r2 show ?thesis by (intro conjI)
qed

section \<open>Submitting a block of items: the hash short-circuit\<close>

text \<open>
  Claim C4 does not hold of the code. In item mode with \<^verbatim>\<open>skip_matching_hash\<close> set, the pair
  of a file and its copy, whose hashes match on every rotation, is not recorded: the block
  is submitted and the command queue receives the \<^verbatim>\<open>ItemCompareArgs\<close> of the pair. No
  function of the code reads \<^verbatim>\<open>skip_matching_hash\<close> but the checks of the configuration.
\<close>

theorem item_block_dispatches_matching_hash:
  "second_loop_skip_matching_hash item_config
   \<and> hash_0 (two_copies ! 0) = hash_0 (two_copies ! 1)
   \<and> prepopulate_diff_table 2 False two_copies
       = [\<lparr>dif_key = 1, key_a = 0, key_b = 1, dif = -1, dif_success = -1,
           block_a = Some 0, block_b = Some 0, block_key = Some 1\<rparr>]
   \<and> item_block True two_copies (prepopulate_diff_table 2 False two_copies) (item_config, [], 0)
       = Inr (ReturnBool True, item_config\<lparr>second_loop_cache_index := 2\<rparr>,
              [CmdItem (ItemCompareArgs 1 0 1 ''/a/x.jpg'' ''/a/y.jpg'' None)], 1)"
proof -
  have t: "prepopulate_diff_table 2 False two_copies
       = [\<lparr>dif_key = 1, key_a = 0, key_b = 1, dif = -1, dif_success = -1,
           block_a = Some 0, block_b = Some 0, block_key = Some 1\<rparr>]"
    by code_simp
  have "item_block True two_copies
          [\<lparr>dif_key = 1, key_a = 0, key_b = 1, dif = -1, dif_success = -1,
           block_a = Some 0, block_b = Some 0, block_key = Some 1\<rparr>] (item_config, [], 0)
       = Inr (ReturnBool True, item_config\<lparr>second_loop_cache_index := 2\<rparr>,
              [CmdItem (ItemCompareArgs 1 0 1 ''/a/x.jpg'' ''/a/y.jpg'' None)], 1)"
    by (simp add: item_block_def get_item_block_def join_files_def submit_args_def
          two_copies_def item_config_def)
  with t show ?thesis by (simp add: item_config_def two_copies_def)
qed

section \<open>Thresholds of the second-loop dequeue functions\<close>

lemma item_loop_idle:
  "\<not> drain \<Longrightarrow> \<not> deq + (batch_size ^ 2) * 2 < enq
     \<Longrightarrow> item_loop batch_size drain enq deq q acc = (q, acc)"
  by (cases q; cases acc) auto

lemma batch_loop_idle:
  "\<not> drain \<Longrightarrow> \<not> deq + batch_size * int handles < enq
     \<Longrightarrow> batch_loop batch_size handles drain enq q (results, deq, exits) = (q, results, deq, exits)"
  by (cases q) auto

lemma batch_loop_only_while:
  "batch_loop batch_size handles False enq q (results, deq, exits) = (q', results', deq', exits')
   \<Longrightarrow> \<exists>taken. q = taken @ q'
         \<and> results' = results @ map the (filter (\<lambda>m. m \<noteq> None) taken)
         \<and> deq' = deq + int (length (filter (\<lambda>m. m \<noteq> None) taken))
         \<and> (q' = [] \<or> \<not> deq' + batch_size * int handles < enq)
         \<and> (\<forall>j<length taken.
               deq + int (length (filter (\<lambda>m. m \<noteq> None) (take j taken)))
                 + batch_size * int handles < enq)"
proof (induction q arbitrary: results deq exits)
  case Nil
  then show ?case by simp
next
  case (Cons res q)
  show ?case
  proof (cases "deq + batch_size * int handles < enq")
    case False
    with Cons.prems have "q' = res # q" "results' = results" "deq' = deq" by auto
    with False show ?thesis by (intro exI[of _ "[]"]) simp
  next
    case True
    show ?thesis
    proof (cases res)
      case None
      with True Cons.prems
      have "batch_loop batch_size handles False enq q (results, deq, exits + 1)
              = (q', results', deq', exits')" by simp
      from Cons.IH[OF this] obtain taken where t: "q = taken @ q'"
         "results' = results @ map the (filter (\<lambda>m. m \<noteq> None) taken)"
         "deq' = deq + int (length (filter (\<lambda>m. m \<noteq> None) taken))"
         "q' = [] \<or> \<not> deq' + batch_size * int handles < enq"
         "\<forall>j<length taken. deq + int (length (filter (\<lambda>m. m \<noteq> None) (take j taken)))
                 + batch_size * int handles < enq" by blast
      have "\<forall>j<length (res # taken).
               deq + int (length (filter (\<lambda>m. m \<noteq> None) (take j (res # taken))))
                 + batch_size * int handles < enq"
      proof (intro allI impI)
        fix j assume "j < length (res # taken)"
        then show "deq + int (length (filter (\<lambda>m. m \<noteq> None) (take j (res # taken))))
                 + batch_size * int handles < enq"
          using t(5) True None by (cases j) auto
      qed
      with t None show ?thesis by (intro exI[of _ "res # taken"]) simp
    next
      case (Some r)
      with True Cons.prems
      have "batch_loop batch_size handles False enq q (results @ [r], deq + 1, exits)
              = (q', results', deq', exits')" by simp
      from Cons.IH[OF this] obtain taken where t: "q = taken @ q'"
         "results' = (results @ [r]) @ map the (filter (\<lambda>m. m \<noteq> None) taken)"
         "deq' = deq + 1 + int (length (filter (\<lambda>m. m \<noteq> None) taken))"
         "q' = [] \<or> \<not> deq' + batch_size * int handles < enq"
         "\<forall>j<length taken. deq + 1 + int (length (filter (\<lambda>m. m \<noteq> None) (take j taken)))
                 + batch_size * int handles < enq" by blast
      have "\<forall>j<length (res # taken).
               deq + int (length (filter (\<lambda>m. m \<noteq> None) (take j (res # taken))))
                 + batch_size * int handles < enq"
      proof (intro allI impI)
        fix j assume "j < length (res # taken)"
        then show "deq + int (length (filter (\<lambda>m. m \<noteq> None) (take j (res # taken))))
                 + batch_size * int handles < enq"
          using t(5) True Some by (cases j) auto
      qed
      with t Some show ?thesis by (intro exI[of _ "res # taken"]) simp
    qed
  qed
qed

text \<open>
  Claim C5, as the code has it. The function of item mode, \<^const>\<open>dequeue_second_loop_item\<close>,
  compares the backlog with \<^verbatim>\<open>(batch_size ** 2) * 2\<close>, and the function of batch mode,
  \<^const>\<open>dequeue_second_loop_batch\<close>, with \<^verbatim>\<open>batch_size * len(handles)\<close>. When not draining:
  the item function takes nothing from the queue and changes nothing when, at the call,
  the enqueue counter does not exceed the dequeue counter by more than its threshold;
  so does the batch function for its threshold; and the batch function takes a prefix of
  the queue, returns the results in it, advances the dequeue counter by their number,
  stops with the queue empty or the backlog no longer above its threshold, and took each
  message at a moment when the backlog was above it.
\<close>

theorem dequeue_second_loop_thresholds:
  "(\<not> dequeue_counter st + (second_loop_batch_size cfg ^ 2) * 2 < enqueue_counter st
      \<longrightarrow> dequeue_second_loop_item cfg False st = ([], st))
   \<and> (\<not> dequeue_counter bst + second_loop_batch_size cfg * int handles < enqueue_counter bst
      \<longrightarrow> dequeue_second_loop_batch cfg handles False bst = ([], bst))
   \<and> (case dequeue_second_loop_batch cfg handles False bst of (results, bst') \<Rightarrow>
        \<exists>taken.
           result_queue bst = taken @ result_queue bst'
         \<and> results = map the (filter (\<lambda>m. m \<noteq> None) taken)
         \<and> dequeue_counter bst' = dequeue_counter bst + int (length results)
         \<and> enqueue_counter bst' = enqueue_counter bst
         \<and> (result_queue bst' = []
            \<or> \<not> dequeue_counter bst' + second_loop_batch_size cfg * int handles
                   < enqueue_counter bst)
         \<and> (\<forall>j<length taken.
               dequeue_counter bst + int (length (filter (\<lambda>m. m \<noteq> None) (take j taken)))
                 + second_loop_batch_size cfg * int handles < enqueue_counter bst))"
proof (intro conjI impI)
  assume "\<not> dequeue_counter st + (second_loop_batch_size cfg ^ 2) * 2 < enqueue_counter st"
  then show "dequeue_second_loop_item cfg False st = ([], st)"
    by (simp add: dequeue_second_loop_item_def item_loop_idle)
next
  assume "\<not> dequeue_counter bst + second_loop_batch_size cfg * int handles < enqueue_counter bst"
  then show "dequeue_second_loop_batch cfg handles False bst = ([], bst)"
    by (simp add: dequeue_second_loop_batch_def batch_loop_idle)
next
  obtain q' results' deq' exits' where
    l: "batch_loop (second_loop_batch_size cfg) handles False (enqueue_counter bst)
          (result_queue bst) ([], dequeue_counter bst, exit_counter bst) = (q', results', deq', exits')"
    by (metis prod_cases4)
  then have D: "dequeue_second_loop_batch cfg handles False bst
       = (results', bst\<lparr>result_queue := q', exit_counter := exits', dequeue_counter := deq'\<rparr>)"
    by (simp add: dequeue_second_loop_batch_def)
  from batch_loop_only_while[OF l] obtain taken where
    "result_queue bst = taken @ q'"
    "results' = [] @ map the (filter (\<lambda>m. m \<noteq> None) taken)"
    "deq' = dequeue_counter bst + int (length (filter (\<lambda>m. m \<noteq> None) taken))"
    "q' = [] \<or> \<not> deq' + second_loop_batch_size cfg * int handles < enqueue_counter bst"
    "\<forall>j<length taken. dequeue_counter bst + int (length (filter (\<lambda>m. m \<noteq> None) (take j taken)))
                 + second_loop_batch_size cfg * int handles < enqueue_counter bst" by blast
  then show "case dequeue_second_loop_batch cfg handles False bst of (results, bst') \<Rightarrow>
        \<exists>taken.
           result_queue bst = taken @ result_queue bst'
         \<and> results = map the (filter (\<lambda>m. m \<noteq> None) taken)
         \<and> dequeue_counter bst' = dequeue_counter bst + int (length results)
         \<and> enqueue_counter bst' = enqueue_counter bst
         \<and> (result_queue bst' = []
            \<or> \<not> dequeue_counter bst' + second_loop_batch_size cfg * int handles
                   < enqueue_counter bst)
         \<and> (\<forall>j<length taken.
               dequeue_counter bst + int (length (filter (\<lambda>m. m \<noteq> None) (take j taken)))
                 + second_loop_batch_size cfg * int handles < enqueue_counter bst)"
    unfolding D by (simp del: not_None_eq)
qed


theorem dequeue_second_loop_thresholds_witness:
  "\<not> (0::int) + (second_loop_batch_size item_config ^ 2) * 2 < 8
   \<and> dequeue_second_loop_item item_config False
        \<lparr>result_queue = [MsgItem (7::nat)], enqueue_counter = 8, dequeue_counter = 0,
         exit_counter = 0\<rparr>
       = ([], \<lparr>result_queue = [MsgItem 7], enqueue_counter = 8, dequeue_counter = 0,
               exit_counter = 0\<rparr>)
   \<and> \<not> (1::int) + second_loop_batch_size batch_config * int 1 < 3
   \<and> dequeue_second_loop_batch batch_config 1 False
        \<lparr>result_queue = [Some (8::nat)], enqueue_counter = 3, dequeue_counter = 1,
         exit_counter = 0\<rparr>
       = ([], \<lparr>result_queue = [Some 8], enqueue_counter = 3, dequeue_counter = 1,
               exit_counter = 0\<rparr>)
   \<and> dequeue_second_loop_batch batch_config 1 False
        \<lparr>result_queue = [Some (7::nat), None, Some 8], enqueue_counter = 3, dequeue_counter = 0,
         exit_counter = 0\<rparr>
       = ([7], \<lparr>result_queue = [None, Some 8], enqueue_counter = 3, dequeue_counter = 1,
                exit_counter = 0\<rparr>)"
proof -
  have h1: "\<not> (0::int) + (second_loop_batch_size item_config ^ 2) * 2 < 8"
    by (simp add: item_config_def)
  have h2: "\<not> (1::int) + second_loop_batch_size batch_config * int 1 < 3"
    by (simp add: batch_config_def item_config_def)
  note t = dequeue_second_loop_thresholds[of
      "\<lparr>result_queue = [MsgItem (7::nat)], enqueue_counter = 8, dequeue_counter = 0,
         exit_counter = 0\<rparr>" item_config
      "\<lparr>result_queue = [Some (8::nat)], enqueue_counter = 3, dequeue_counter = 1,
         exit_counter = 0\<rparr>" 1]
  note u = dequeue_second_loop_thresholds[of
      "\<lparr>result_queue = [MsgItem (7::nat)], enqueue_counter = 8, dequeue_counter = 0,
         exit_counter = 0\<rparr>" batch_config
      "\<lparr>result_queue = [Some (8::nat)], enqueue_counter = 3, dequeue_counter = 1,
         exit_counter = 0\<rparr>" 1]
  have a: "dequeue_second_loop_item item_config False
        \<lparr>result_queue = [MsgItem (7::nat)], enqueue_counter = 8, dequeue_counter = 0,
         exit_counter = 0\<rparr>
       = ([], \<lparr>result_queue = [MsgItem 7], enqueue_counter = 8, dequeue_counter = 0,
               exit_counter = 0\<rparr>)"
    using t[THEN conjunct1] h1 by simp
  have b: "dequeue_second_loop_batch batch_config 1 False
        \<lparr>result_queue = [Some (8::nat)], enqueue_counter = 3, dequeue_counter = 1,
         exit_counter = 0\<rparr>
       = ([], \<lparr>result_queue = [Some 8], enqueue_counter = 3, dequeue_counter = 1,
               exit_counter = 0\<rparr>)"
    using u[THEN conjunct2, THEN conjunct1] h2 by simp
  have c: "dequeue_second_loop_batch batch_config 1 False
        \<lparr>result_queue = [Some (7::nat), None, Some 8], enqueue_counter = 3, dequeue_counter = 0,
         exit_counter = 0\<rparr>
       = ([7], \<lparr>result_queue = [None, Some 8], enqueue_counter = 3, dequeue_counter = 1,
                exit_counter = 0\<rparr>)"
    by (simp add: dequeue_second_loop_batch_def batch_config_def item_config_def)
  from h1 h2 a b c show ?thesis by blast
qed

text \<open>
  The thresholds the other way round fail: with blocks of side 2 and one handle, a backlog
  of 5 is not above \<^verbatim>\<open>(2 ** 2) * 2\<close>, and the batch function takes the result; with five
  handles, a backlog of 9 is not above \<^verbatim>\<open>2 * 5\<close>, and the item function takes the result.
\<close>

theorem dequeue_second_loop_thresholds_counterexample:
  "\<not> (0::int) + (second_loop_batch_size batch_config ^ 2) * 2 < 5
   \<and> dequeue_second_loop_batch batch_config 1 False
        \<lparr>result_queue = [Some (7::nat)], enqueue_counter = 5, dequeue_counter = 0,
         exit_counter = 0\<rparr>
       = ([7], \<lparr>result_queue = [], enqueue_counter = 5, dequeue_counter = 1,
                exit_counter = 0\<rparr>)
   \<and> \<not> (0::int) + second_loop_batch_size item_config * int 5 < 9
   \<and> dequeue_second_loop_item item_config False
        \<lparr>result_queue = [MsgItem (7::nat)], enqueue_counter = 9, dequeue_counter = 0,
         exit_counter = 0\<rparr>
       = ([7], \<lparr>result_queue = [], enqueue_counter = 9, dequeue_counter = 1,
                exit_counter = 0\<rparr>)"
  by (simp add: dequeue_second_loop_batch_def dequeue_second_loop_item_def batch_config_def
        item_config_def)

section \<open>The query surface and the errors of comparisons\<close>

lemma dict_set_nonempty: "dict_set k v m \<noteq> []"
  by (cases m) (auto split: if_splits)

lemma cluster_dict_nonempty: "acc \<noteq> [] \<Longrightarrow> cluster_dict group_a acc \<noteq> []"
proof -
  assume "acc \<noteq> []"
  then obtain ys y where "acc = ys @ [y]" by (metis rev_exhaust)
  then show ?thesis by (simp add: cluster_dict_def dict_set_nonempty)
qed

lemma cluster_loop_nonempty:
  "acc \<noteq> [] \<Longrightarrow> c \<in> set (cluster_loop group_a head acc rows) \<Longrightarrow> snd c \<noteq> []"
proof (induction rows arbitrary: head acc)
  case Nil
  then show ?case by (auto simp: cluster_dict_nonempty)
next
  case (Cons row rows)
  show ?case
  proof (cases "(if group_a then fst row else fst (snd row)) = head")
    case True
    with Cons.prems have "c \<in> set (cluster_loop group_a head (acc @ [row]) rows)" by simp
    then show ?thesis using Cons.IH[of "acc @ [row]" head] by simp
  next
    case False
    with Cons.prems have "c = (head, cluster_dict group_a acc)
        \<or> c \<in> set (cluster_loop group_a (if group_a then fst row else fst (snd row)) [row] rows)"
      by auto
    then show ?thesis
      using Cons.IH[of "[row]"] Cons.prems(1) by (auto simp: cluster_dict_nonempty)
  qed
qed

lemma join_files_fst: "x \<in> set (join_files d r) \<Longrightarrow> fst x = r"
  by (auto simp: join_files_def)

lemma select_duplicates_success:
  "x \<in> set (select_duplicates group_a delta d t) \<Longrightarrow>
     fst x \<in> set t \<and> dif_success (fst x) = 1 \<and> dif (fst x) < delta"
  by (auto simp: select_duplicates_def dest: join_files_fst)

lemma select_duplicates_empty:
  assumes "\<forall>r\<in>set t. \<not> (dif_success r = 1 \<and> dif r < delta)"
  shows "select_duplicates group_a delta d t = []"
proof (rule ccontr)
  assume "select_duplicates group_a delta d t \<noteq> []"
  then obtain x where "x \<in> set (select_duplicates group_a delta d t)"
    by (cases "select_duplicates group_a delta d t") auto
  from select_duplicates_success[OF this] assms show False by blast
qed

lemma sort_key_pairs_simps:
  "((a::int, b::int) \<le> (c, d)) = (a < c \<or> a = c \<and> b \<le> d)"
  by (auto simp: less_eq_prod_def)

text \<open>
  Claim C10. For every threshold and either grouping: when no row of the dif table has
  \<^verbatim>\<open>success = 1\<close> and a difference strictly below the threshold, \<^const>\<open>get_cluster\<close> yields
  nothing at all; and every cluster it yields, on any tables, has a dictionary with at
  least one member.
\<close>

theorem get_cluster_no_empty_cluster:
  "((\<forall>r\<in>set t. \<not> (dif_success r = 1 \<and> dif r < delta)) \<longrightarrow> get_cluster delta group_a d t = [])
   \<and> (\<forall>c\<in>set (get_cluster delta group_a d t). snd c \<noteq> [])"
proof (intro conjI impI ballI)
  assume "\<forall>r\<in>set t. \<not> (dif_success r = 1 \<and> dif r < delta)"
  then show "get_cluster delta group_a d t = []"
    by (simp add: get_cluster_def select_duplicates_empty)
next
  fix c assume "c \<in> set (get_cluster delta group_a d t)"
  then show "snd c \<noteq> []"
    by (auto simp: get_cluster_def split: list.splits dest: cluster_loop_nonempty[rotated])
qed

theorem get_cluster_no_empty_cluster_witness:
  "get_cluster 5 True three_files [pair_row 2 0 2 3 0, pair_row 3 1 2 (-1) (-1)] = []
   \<and> get_cluster 5 True three_files three_pairs = [(''x.jpg'', [(''y.jpg'', 0), (''z.jpg'', 3)])]
   \<and> snd (''x.jpg'', [(''y.jpg'', 0::real), (''z.jpg'', 3)]) \<noteq> []"
proof -
  note t1 = get_cluster_no_empty_cluster[of "[pair_row 2 0 2 3 0, pair_row 3 1 2 (-1) (-1)]" 5 True three_files]
  have "\<forall>r\<in>set [pair_row 2 0 2 3 0, pair_row 3 1 2 (-1) (-1)]. \<not> (dif_success r = 1 \<and> dif r < 5)"
    by (simp add: pair_row_def)
  with t1 have a: "get_cluster 5 True three_files [pair_row 2 0 2 3 0, pair_row 3 1 2 (-1) (-1)] = []"
    by blast
  have b: "get_cluster 5 True three_files three_pairs = [(''x.jpg'', [(''y.jpg'', 0), (''z.jpg'', 3)])]"
    by (simp add: get_cluster_def select_duplicates_def join_files_def three_pairs_def
          pair_row_def three_files_def file_row_def sort_key_pairs_simps cluster_dict_def)
  note t2 = get_cluster_no_empty_cluster[of three_pairs 5 True three_files, THEN conjunct2]
  with b have "snd (''x.jpg'', [(''y.jpg'', 0::real), (''z.jpg'', 3)]) \<noteq> []"
    by simp
  with a b show ?thesis by blast
qed

lemma select_duplicates_filter:
  assumes "\<And>r. dif_success r = 1 \<Longrightarrow> P r"
  shows "select_duplicates group_a delta d (filter P t) = select_duplicates group_a delta d t"
proof -
  have "filter (\<lambda>r. dif r < delta \<and> dif_success r = 1) (filter P t)
        = filter (\<lambda>r. dif r < delta \<and> dif_success r = 1) t"
    using assms by (induction t) auto
  then show ?thesis unfolding select_duplicates_def by simp
qed


lemma fold_set_diff_error:
  "fold (\<lambda>(k, v). set_diff_error k) errors t
     = map (\<lambda>r. if dif_key r \<in> fst ` set errors then r\<lparr>dif_success := 0\<rparr> else r) t"
proof (induction errors arbitrary: t)
  case Nil
  then show ?case by simp
next
  case (Cons kv errors)
  obtain k v where kv: "kv = (k, v)" by (cases kv)
  have "fold (\<lambda>(k, v). set_diff_error k) (kv # errors) t
          = fold (\<lambda>(k, v). set_diff_error k) errors (set_diff_error k t)"
    by (simp add: kv)
  also have "\<dots> = map (\<lambda>r. if dif_key r \<in> fst ` set errors then r\<lparr>dif_success := 0\<rparr> else r)
                      (set_diff_error k t)"
    by (rule Cons.IH)
  also have "\<dots> = map (\<lambda>r. if dif_key r \<in> fst ` set (kv # errors)
                              then r\<lparr>dif_success := 0\<rparr> else r) t"
    by (auto simp: set_diff_error_def kv)
  finally show ?case .
qed

lemma insert_diff_errors_fresh:
  "distinct (map fst args) \<Longrightarrow> fst ` set args \<inter> fst ` set e = {}
     \<Longrightarrow> \<exists>e'. insert_diff_errors args e = Inr e' \<and> set e' = set e \<union> set args"
proof (induction args arbitrary: e)
  case Nil
  then show ?case by simp
next
  case (Cons kv args)
  obtain k v where kv: "kv = (k, v)" by (cases kv)
  from Cons.prems have 1: "k \<notin> fst ` set e" and 2: "distinct (map fst args)"
    and 3: "fst ` set args \<inter> fst ` set (insort_key fst (k, v) e) = {}"
    unfolding kv by (auto simp: set_insort_key)
  from Cons.IH[OF 2 3] obtain e' where
    "insert_diff_errors args (insort_key fst (k, v) e) = Inr e'"
    "set e' = set (insort_key fst (k, v) e) \<union> set args" by blast
  with 1 show ?case unfolding kv by (auto simp: set_insort_key)
qed

text \<open>
  Claim C9. Let \<open>errors\<close> be a dictionary (its keys are distinct) none of whose keys
  has a row in the error table yet. Then \<^const>\<open>insert_batch_diff_error\<close> succeeds; every row
  of the dif table whose key is a key of \<open>errors\<close> gets \<^verbatim>\<open>success = 0\<close> and no other row
  changes; the error table keeps its rows and gains, for every item, the row of the key
  and the wrapped message. For every threshold and directory table, every row the
  statement of \<^const>\<open>get_duplicate_pairs\<close> selects from the new dif table has \<^verbatim>\<open>success = 1\<close>
  and is none of the failed pairs; and on any dif table the output of
  \<^const>\<open>get_duplicate_pairs\<close> is the output on the table without its rows of \<^verbatim>\<open>success = 0\<close>.
\<close>

theorem insert_batch_diff_error_recorded:
  assumes "distinct (map fst errors)" and "fst ` set errors \<inter> fst ` set e = {}"
  shows "\<exists>t' e'. insert_batch_diff_error to_b64 errors (t, e) = Inr (t', e')
           \<and> length t' = length t
           \<and> (\<forall>i<length t. t' ! i = (if dif_key (t ! i) \<in> fst ` set errors
                                       then (t ! i)\<lparr>dif_success := 0\<rparr> else t ! i))
           \<and> set e \<subseteq> set e'
           \<and> (\<forall>kv\<in>set errors. (fst kv, to_b64 (snd kv)) \<in> set e')
           \<and> (\<forall>delta d. \<forall>x\<in>set (select_duplicates True delta d t').
                  dif_success (fst x) = 1 \<and> dif_key (fst x) \<notin> fst ` set errors)
           \<and> (\<forall>delta d tbl. get_duplicate_pairs delta d tbl
                  = get_duplicate_pairs delta d (filter (\<lambda>r. dif_success r \<noteq> 0) tbl))"
proof -
  define t' where "t' = map (\<lambda>r. if dif_key r \<in> fst ` set errors then r\<lparr>dif_success := 0\<rparr> else r) t"
  have m: "map fst (map (\<lambda>(k, v). (k, to_b64 v)) errors) = map fst errors"
    by (induction errors) auto
  have m2: "fst ` set (map (\<lambda>(k, v). (k, to_b64 v)) errors) = fst ` set errors"
    by force
  have "\<exists>e'. insert_diff_errors (map (\<lambda>(k, v). (k, to_b64 v)) errors) e = Inr e'
           \<and> set e' = set e \<union> set (map (\<lambda>(k, v). (k, to_b64 v)) errors)"
  proof (rule insert_diff_errors_fresh)
    show "distinct (map fst (map (\<lambda>(k, v). (k, to_b64 v)) errors))"
      unfolding m by (rule assms(1))
    show "fst ` set (map (\<lambda>(k, v). (k, to_b64 v)) errors) \<inter> fst ` set e = {}"
      unfolding m2 by (rule assms(2))
  qed
  then obtain e' where ins: "insert_diff_errors (map (\<lambda>(k, v). (k, to_b64 v)) errors) e = Inr e'"
    and e': "set e' = set e \<union> set (map (\<lambda>(k, v). (k, to_b64 v)) errors)" by blast
  from ins have 1: "insert_batch_diff_error to_b64 errors (t, e) = Inr (t', e')"
    by (simp add: insert_batch_diff_error_def fold_set_diff_error t'_def)
  have 2: "length t' = length t" by (simp add: t'_def)
  have 3: "\<forall>i<length t. t' ! i = (if dif_key (t ! i) \<in> fst ` set errors
                                       then (t ! i)\<lparr>dif_success := 0\<rparr> else t ! i)"
    by (simp add: t'_def)
  have 4: "set e \<subseteq> set e'" unfolding e' by blast
  have 5: "\<forall>kv\<in>set errors. (fst kv, to_b64 (snd kv)) \<in> set e'"
    unfolding e' by force
  have 6: "\<forall>delta d. \<forall>x\<in>set (select_duplicates True delta d t').
                  dif_success (fst x) = 1 \<and> dif_key (fst x) \<notin> fst ` set errors"
  proof (intro allI ballI)
    fix delta d x assume "x \<in> set (select_duplicates True delta d t')"
    from select_duplicates_success[OF this]
    have "fst x \<in> set t'" "dif_success (fst x) = 1" by auto
    then show "dif_success (fst x) = 1 \<and> dif_key (fst x) \<notin> fst ` set errors"
      unfolding t'_def by (auto split: if_splits)
  qed
  have 7: "\<forall>delta d tbl. get_duplicate_pairs delta d tbl
                  = get_duplicate_pairs delta d (filter (\<lambda>r. dif_success r \<noteq> 0) tbl)"
    by (simp add: get_duplicate_pairs_def select_duplicates_filter)
  from 1 2 3 4 5 6 7 show ?thesis by blast
qed

theorem insert_batch_diff_error_recorded_witness:
  "distinct (map fst [(2::int, ''unreadable'')])
   \<and> fst ` set [(2::int, ''unreadable'')] \<inter> fst ` set ([] :: dif_error_table) = {}
   \<and> insert_batch_diff_error (\<lambda>s. s) [(2, ''unreadable'')] (three_pairs, [])
        = Inr ([pair_row 1 0 1 0 1, pair_row 2 0 2 3 0, pair_row 3 1 2 (-1) (-1)],
               [(2, ''unreadable'')])
   \<and> get_duplicate_pairs 5 three_files three_pairs
        = [(''x.jpg'', ''y.jpg'', 0), (''x.jpg'', ''z.jpg'', 3)]
   \<and> get_duplicate_pairs 5 three_files
          [pair_row 1 0 1 0 1, pair_row 2 0 2 3 0, pair_row 3 1 2 (-1) (-1)]
        = [(''x.jpg'', ''y.jpg'', 0)]"
proof -
  have h1: "distinct (map fst [(2::int, ''unreadable'')])" by simp
  have h2: "fst ` set [(2::int, ''unreadable'')] \<inter> fst ` set ([] :: dif_error_table) = {}" by simp
  obtain t' e' where
    r: "insert_batch_diff_error (\<lambda>s. s) [(2, ''unreadable'')] (three_pairs, []) = Inr (t', e')"
    and l: "length t' = length three_pairs"
    and n: "\<forall>i<length three_pairs. t' ! i = (if dif_key (three_pairs ! i) \<in> fst ` set [(2::int, ''unreadable'')]
                                       then (three_pairs ! i)\<lparr>dif_success := 0\<rparr> else three_pairs ! i)"
    and s: "set [] \<subseteq> set e'"
    and i: "\<forall>kv\<in>set [(2::int, ''unreadable'')]. (fst kv, (\<lambda>s. s) (snd kv)) \<in> set e'"
    using insert_batch_diff_error_recorded[OF h1 h2, of "\<lambda>s. s" three_pairs] by blast
  have c: "insert_batch_diff_error (\<lambda>s. s) [(2, ''unreadable'')] (three_pairs, [])
        = Inr ([pair_row 1 0 1 0 1, pair_row 2 0 2 3 0, pair_row 3 1 2 (-1) (-1)],
               [(2, ''unreadable'')])"
    by (simp add: insert_batch_diff_error_def set_diff_error_def three_pairs_def pair_row_def)
  have g1: "get_duplicate_pairs 5 three_files three_pairs
        = [(''x.jpg'', ''y.jpg'', 0), (''x.jpg'', ''z.jpg'', 3)]"
    by (simp add: get_duplicate_pairs_def select_duplicates_def join_files_def three_pairs_def
          pair_row_def three_files_def file_row_def sort_key_pairs_simps)
  have g2: "get_duplicate_pairs 5 three_files
          [pair_row 1 0 1 0 1, pair_row 2 0 2 3 0, pair_row 3 1 2 (-1) (-1)]
        = [(''x.jpg'', ''y.jpg'', 0)]"
    by (simp add: get_duplicate_pairs_def select_duplicates_def join_files_def 
          pair_row_def three_files_def file_row_def sort_key_pairs_simps)
  from r l h1 h2 c g1 g2 show ?thesis by blast
qed

end
